theory Spec2Isabelle
  imports Main "HOL-Library.Word" "HOL-Library.Signed_Division" "HOL-Library.Char_ord"
    "HOL-Library.List_Lexorder" "HOL-Library.AList"
begin

section \<open>The memory-mapped rotating log writer\<close>

text \<open>
  A shallow embedding of package \<open>logger\<close> (type \<open>MMapLogger\<close>): the write path,
  window allocation, rotation, the stop operation and the retention sweep.

  The writer lives on system calls, so the model carries the platform as an explicit
  state \<open>os_state\<close>: the entries of the log directory, the contents of the files, the
  table of open \<open>os.File\<close> handles, the table of live memory mappings (the one Go's
  \<open>syscall\<close> package keeps) and the clock. Every call that reaches the kernel can fail:
  the state holds a list \<open>faults\<close>, one boolean per system call still to come, and a
  call whose boolean is \<open>True\<close> fails with \<open>EIO\<close>. An empty list means that no
  failure is injected; the calls can still fail for reasons the state decides
  (a missing file, a closed handle).

  The mutex \<open>mu\<close> is left out: each method is modelled as the critical section it runs
  under the lock. Output of \<open>fmt.Printf\<close> is not modelled. The background goroutine
  is represented by the state of its channel only (field \<open>millCh\<close>); one run of it is
  the function \<open>millRunOnce\<close>.
\<close>

subsection \<open>Values\<close>

type_synonym byte = "8 word"

datatype errno = ENOENT | EBADF | EINVAL | EISDIR | ENOTDIR | EIO | ErrInvalid | ErrClosed

datatype error =
    ErrWriteTooLarge int int
  | ErrorString string
  | ErrParse string
  | Wrapped string errno
  | Sys errno
  | CompressFailed error

text \<open>A Go call either panics (or dies on a memory fault) or returns.\<close>

datatype 'a outcome = Panic | Done 'a

subsection \<open>Package-level constants and variables\<close>

definition compressSuffix :: string where
  "compressSuffix = ''.gz''"

definition defaultMmapMaxSize :: int where
  "defaultMmapMaxSize = 100"

definition defaultMegaByteSize :: int where
  "defaultMegaByteSize = 10"

definition megabyte :: int where
  "megabyte = 1024 * 1024"

definition pageSize :: int where
  "pageSize = 4 * 1024"

text \<open>Conversion to \<open>int64\<close>: the value wraps into the 64-bit two's complement range.\<close>

definition int64 :: "int \<Rightarrow> int" where
  "int64 k = signed_take_bit 63 k"

subsection \<open>The platform\<close>

datatype dentry = RegFile nat | SubDir

text \<open>A byte slice returned by \<open>syscall.Mmap\<close>: its address and its length.
  The nil slice has length 0.\<close>

record mslice =
  m_addr :: nat
  m_len :: nat

definition nil_slice :: mslice where
  "nil_slice = \<lparr>m_addr = 0, m_len = 0\<rparr>"

text \<open>
  The model follows one directory, the directory of the log file (\<open>l.dir()\<close>): an
  entry is named by the last element of its path. \<open>dents\<close> lists the entries,
  \<open>idata\<close> gives the bytes of each inode, \<open>fdtab\<close> maps each open handle to its
  inode, \<open>active\<close> maps the address of each live mapping to its inode, file offset
  and length.
\<close>

record os_state =
  dents :: "(string \<times> dentry) list"
  idata :: "nat \<Rightarrow> byte list"
  next_ino :: nat
  fdtab :: "nat \<Rightarrow> nat option"
  next_fd :: nat
  active :: "nat \<Rightarrow> (nat \<times> nat \<times> nat) option"
  next_addr :: nat
  faults :: "bool list"
  now :: int

definition inject :: "os_state \<Rightarrow> bool \<times> os_state" where
  "inject s = (case faults s of [] \<Rightarrow> (False, s) | b # bs \<Rightarrow> (b, s\<lparr>faults := bs\<rparr>))"

definition os_MkdirAll :: "os_state \<Rightarrow> errno option \<times> os_state" where
  "os_MkdirAll s = (let (b, s1) = inject s in if b then (Some EIO, s1) else (None, s1))"

definition os_Stat :: "os_state \<Rightarrow> string \<Rightarrow> (errno + dentry) \<times> os_state" where
  "os_Stat s name =
     (let (b, s1) = inject s in
      if b then (Inl EIO, s1)
      else case map_of (dents s1) name of
             None \<Rightarrow> (Inl ENOENT, s1)
           | Some d \<Rightarrow> (Inr d, s1))"

definition os_Rename :: "os_state \<Rightarrow> string \<Rightarrow> string \<Rightarrow> errno option \<times> os_state" where
  "os_Rename s old new =
     (let (b, s1) = inject s in
      if b then (Some EIO, s1)
      else case map_of (dents s1) old of
             None \<Rightarrow> (Some ENOENT, s1)
           | Some d \<Rightarrow>
               if old = new then (None, s1)
               else if d \<noteq> SubDir \<and> map_of (dents s1) new = Some SubDir then (Some EISDIR, s1)
               else if d = SubDir \<and> map_of (dents s1) new \<noteq> None
                       \<and> map_of (dents s1) new \<noteq> Some SubDir then (Some ENOTDIR, s1)
               else (None, s1\<lparr>dents := AList.update new d (AList.delete old (dents s1))\<rparr>))"

text \<open>\<open>os.OpenFile(name, os.O_RDWR|os.O_CREATE, 0664)\<close>: no truncation of an
  existing file; a missing file is created empty.\<close>

definition os_OpenFile :: "os_state \<Rightarrow> string \<Rightarrow> (errno + nat) \<times> os_state" where
  "os_OpenFile s name =
     (let (b, s1) = inject s in
      if b then (Inl EIO, s1)
      else case map_of (dents s1) name of
             Some SubDir \<Rightarrow> (Inl EISDIR, s1)
           | Some (RegFile i) \<Rightarrow>
               (Inr (next_fd s1),
                s1\<lparr>fdtab := (fdtab s1)(next_fd s1 \<mapsto> i), next_fd := Suc (next_fd s1)\<rparr>)
           | None \<Rightarrow>
               (Inr (next_fd s1),
                s1\<lparr>dents := AList.update name (RegFile (next_ino s1)) (dents s1),
                   idata := (idata s1)(next_ino s1 := []),
                   next_ino := Suc (next_ino s1),
                   fdtab := (fdtab s1)(next_fd s1 \<mapsto> next_ino s1),
                   next_fd := Suc (next_fd s1)\<rparr>))"

text \<open>\<open>os.Open(name)\<close>, read only. A directory is refused here rather than at the
  first read.\<close>

definition os_Open :: "os_state \<Rightarrow> string \<Rightarrow> (errno + nat) \<times> os_state" where
  "os_Open s name =
     (let (b, s1) = inject s in
      if b then (Inl EIO, s1)
      else case map_of (dents s1) name of
             Some SubDir \<Rightarrow> (Inl EISDIR, s1)
           | Some (RegFile i) \<Rightarrow>
               (Inr (next_fd s1),
                s1\<lparr>fdtab := (fdtab s1)(next_fd s1 \<mapsto> i), next_fd := Suc (next_fd s1)\<rparr>)
           | None \<Rightarrow> (Inl ENOENT, s1))"

text \<open>\<open>f.Stat()\<close> on an open handle gives the size of the file.\<close>

definition file_Stat :: "os_state \<Rightarrow> nat \<Rightarrow> (errno + int) \<times> os_state" where
  "file_Stat s h =
     (case fdtab s h of
        None \<Rightarrow> (Inl ErrClosed, s)
      | Some i \<Rightarrow>
          (let (b, s1) = inject s in
           if b then (Inl EIO, s1) else (Inr (int (length (idata s1 i))), s1)))"

text \<open>\<open>f.Close()\<close>: \<open>ErrInvalid\<close> on a nil handle, \<open>ErrClosed\<close> on a closed one;
  otherwise the handle is closed even when the system call reports an error.\<close>

definition file_Close :: "os_state \<Rightarrow> nat option \<Rightarrow> errno option \<times> os_state" where
  "file_Close s f =
     (case f of
        None \<Rightarrow> (Some ErrInvalid, s)
      | Some h \<Rightarrow>
          (case fdtab s h of
             None \<Rightarrow> (Some ErrClosed, s)
           | Some i \<Rightarrow>
               (let (b, s1) = inject s in
                (if b then Some EIO else None, s1\<lparr>fdtab := (fdtab s1)(h := None)\<rparr>))))"

text \<open>\<open>f.Fd()\<close>: the descriptor of an open handle, and no valid descriptor
  (\<open>-1\<close> in Go) for a nil or closed handle.\<close>

definition Fd :: "os_state \<Rightarrow> nat option \<Rightarrow> nat option" where
  "Fd s f = (case f of None \<Rightarrow> None
             | Some h \<Rightarrow> (case fdtab s h of None \<Rightarrow> None | Some i \<Rightarrow> Some h))"

definition resize :: "nat \<Rightarrow> byte list \<Rightarrow> byte list" where
  "resize n d = take n d @ replicate (n - length d) 0"

definition syscall_Ftruncate :: "os_state \<Rightarrow> nat option \<Rightarrow> int \<Rightarrow> errno option \<times> os_state" where
  "syscall_Ftruncate s fd n =
     (let (b, s1) = inject s in
      if b then (Some EIO, s1)
      else case fd of
             None \<Rightarrow> (Some EBADF, s1)
           | Some h \<Rightarrow>
               (case fdtab s1 h of
                  None \<Rightarrow> (Some EBADF, s1)
                | Some i \<Rightarrow>
                    if n < 0 then (Some EINVAL, s1)
                    else (None, s1\<lparr>idata := (idata s1)(i := resize (nat n) (idata s1 i))\<rparr>)))"

text \<open>\<open>syscall.Mmap(fd, offset, length, PROT_WRITE, MAP_SHARED)\<close>.\<close>

definition syscall_Mmap :: "os_state \<Rightarrow> nat option \<Rightarrow> int \<Rightarrow> int \<Rightarrow> (errno + mslice) \<times> os_state" where
  "syscall_Mmap s fd off len =
     (if len \<le> 0 then (Inl EINVAL, s)
      else let (b, s1) = inject s in
        if b then (Inl EIO, s1)
        else case fd of
               None \<Rightarrow> (Inl EBADF, s1)
             | Some h \<Rightarrow>
                 (case fdtab s1 h of
                    None \<Rightarrow> (Inl EBADF, s1)
                  | Some i \<Rightarrow>
                      if off < 0 \<or> off mod pageSize \<noteq> 0 then (Inl EINVAL, s1)
                      else (Inr \<lparr>m_addr = next_addr s1, m_len = nat len\<rparr>,
                            s1\<lparr>active := (active s1)(next_addr s1 \<mapsto> (i, nat off, nat len)),
                               next_addr := Suc (next_addr s1)\<rparr>)))"

text \<open>\<open>syscall.Munmap(b)\<close>: Go looks the slice up in its table of active mappings
  and returns \<open>EINVAL\<close>, without a system call, when it is not there.\<close>

definition syscall_Munmap :: "os_state \<Rightarrow> mslice \<Rightarrow> errno option \<times> os_state" where
  "syscall_Munmap s m =
     (if m_len m = 0 then (Some EINVAL, s)
      else case active s (m_addr m) of
             None \<Rightarrow> (Some EINVAL, s)
           | Some r \<Rightarrow>
               (let (b, s1) = inject s in
                if b then (Some EIO, s1)
                else (None, s1\<lparr>active := (active s1)(m_addr m := None)\<rparr>)))"

text \<open>
  \<open>copy(m[cacheAt:], p)\<close> on a mapped slice. Slicing panics when \<open>cacheAt\<close> is
  outside \<open>0..len(m)\<close>. The copy moves \<open>min(len(p), len(m) - cacheAt)\<close> bytes; the
  mapping is shared, so they land in the file. Touching a slice whose mapping is gone,
  or a part of the mapping that lies behind the end of the file, is a memory fault.
\<close>

definition mem_copy :: "os_state \<Rightarrow> mslice \<Rightarrow> int \<Rightarrow> byte list \<Rightarrow> os_state outcome" where
  "mem_copy s m cacheAt p =
     (if cacheAt < 0 \<or> int (m_len m) < cacheAt then Panic
      else let k = min (length p) (m_len m - nat cacheAt) in
        if k = 0 then Done s
        else case active s (m_addr m) of
               None \<Rightarrow> Panic
             | Some (i, off, len) \<Rightarrow>
                 (let pos = off + nat cacheAt; d = idata s i in
                  if length d < pos + k then Panic
                  else Done (s\<lparr>idata := (idata s)(i := take pos d @ take k p @ drop (pos + k) d)\<rparr>)))"

text \<open>\<open>ioutil.ReadDir\<close>: the entries sorted by file name, each with its
  \<open>IsDir()\<close> flag.\<close>

definition ioutil_ReadDir :: "os_state \<Rightarrow> (errno + (string \<times> bool) list) \<times> os_state" where
  "ioutil_ReadDir s =
     (let (b, s1) = inject s in
      if b then (Inl EIO, s1)
      else (Inr (sort_key fst (map (\<lambda>(n, d). (n, d = SubDir)) (dents s1))), s1))"

definition os_Remove :: "os_state \<Rightarrow> string \<Rightarrow> errno option \<times> os_state" where
  "os_Remove s name =
     (let (b, s1) = inject s in
      if b then (Some EIO, s1)
      else case map_of (dents s1) name of
             None \<Rightarrow> (Some ENOENT, s1)
           | Some d \<Rightarrow> (None, s1\<lparr>dents := AList.delete name (dents s1)\<rparr>))"

text \<open>Ownership is not tracked: \<open>os.Chown\<close> only succeeds or fails.\<close>

definition os_Chown :: "os_state \<Rightarrow> string \<Rightarrow> errno option \<times> os_state" where
  "os_Chown s name =
     (let (b, s1) = inject s in
      if b then (Some EIO, s1)
      else case map_of (dents s1) name of
             None \<Rightarrow> (Some ENOENT, s1)
           | Some d \<Rightarrow> (None, s1))"

text \<open>Writing \<open>bs\<close> through handle \<open>h\<close> at file position \<open>pos\<close>.\<close>

definition file_Write :: "os_state \<Rightarrow> nat \<Rightarrow> nat \<Rightarrow> byte list \<Rightarrow> errno option \<times> os_state" where
  "file_Write s h pos bs =
     (case fdtab s h of
        None \<Rightarrow> (Some ErrClosed, s)
      | Some i \<Rightarrow>
          (let (b, s1) = inject s in
           if b then (Some EIO, s1)
           else (None, s1\<lparr>idata := (idata s1)
                   (i := resize pos (idata s1 i) @ bs @ drop (pos + length bs) (idata s1 i))\<rparr>)))"

text \<open>Reading the whole file behind handle \<open>h\<close>.\<close>

definition file_ReadAll :: "os_state \<Rightarrow> nat \<Rightarrow> (errno + byte list) \<times> os_state" where
  "file_ReadAll s h =
     (case fdtab s h of
        None \<Rightarrow> (Inl ErrClosed, s)
      | Some i \<Rightarrow>
          (let (b, s1) = inject s in
           if b then (Inl EIO, s1) else (Inr (idata s1 i), s1)))"

subsection \<open>Library functions taken as parameters\<close>

text \<open>
  \<open>time.Time.Format\<close> and \<open>time.Parse\<close> for the layout \<open>backupTimeFormat\<close>, the
  gzip writer, and the default file name (which depends on \<open>os.Args\<close> and
  \<open>os.TempDir()\<close>) belong to the Go library and the process; the model takes them
  as parameters. A time is an instant in nanoseconds. \<open>time_Format G local t\<close> formats
  \<open>t\<close> in local time or in UTC. \<open>gzip_Write G d\<close> are the bytes the gzip writer
  passes on while \<open>d\<close> is copied into it, \<open>gzip_Close G d\<close> the bytes it emits when
  it is closed.
\<close>

record golib =
  time_Format :: "bool \<Rightarrow> int \<Rightarrow> string"
  time_Parse :: "string \<Rightarrow> int option"
  gzip_Write :: "byte list \<Rightarrow> byte list"
  gzip_Close :: "byte list \<Rightarrow> byte list"
  default_filename :: string

subsection \<open>Strings and paths\<close>

definition strings_HasPrefix :: "string \<Rightarrow> string \<Rightarrow> bool" where
  "strings_HasPrefix s p = (take (length p) s = p)"

definition strings_HasSuffix :: "string \<Rightarrow> string \<Rightarrow> bool" where
  "strings_HasSuffix s e = (length e \<le> length s \<and> drop (length s - length e) s = e)"

text \<open>\<open>filepath.Ext\<close>: scanning from the end of the path, the suffix that starts at
  the first dot met before any separator. \<open>ext_scan\<close> walks the reversed path.\<close>

fun ext_scan :: "string \<Rightarrow> string \<Rightarrow> string" where
  "ext_scan [] acc = []"
| "ext_scan (c # cs) acc =
     (if c = CHR ''/'' then []
      else if c = CHR ''.'' then c # acc
      else ext_scan cs (c # acc))"

definition filepath_Ext :: "string \<Rightarrow> string" where
  "filepath_Ext path = ext_scan (rev path) []"

text \<open>\<open>filepath.Base\<close>: the last element of the path, after dropping trailing
  separators; \<open>.\<close> for the empty path and \<open>/\<close> for a path of separators only.\<close>

definition filepath_Base :: "string \<Rightarrow> string" where
  "filepath_Base path =
     (if path = [] then ''.''
      else let p = dropWhile (\<lambda>c. c = CHR ''/'') (rev path);
               e = rev (takeWhile (\<lambda>c. c \<noteq> CHR ''/'') p)
           in if e = [] then ''/'' else e)"

subsection \<open>The writer\<close>

text \<open>
  \<open>file_l\<close> is the field \<open>file\<close>, the \<open>*os.File\<close> (\<open>None\<close> for nil). \<open>millCh\<close> is \<open>None\<close> until
  \<open>startMill\<close> has run; afterwards it tells whether a signal waits in the channel of
  capacity one.
\<close>

record MMapLogger =
  Filename :: string
  MaxSize :: int
  MaxAge :: int
  MaxBackups :: int
  LocalTime :: bool
  Compress :: bool
  size_l :: int
  file_l :: "nat option"
  millCh :: "bool option"
  writeStartAt :: int
  writeAt :: int
  mmapSpace :: mslice

text \<open>The struct literal of \<open>New\<close> in \<open>zaplogger.go\<close>: the six configuration fields
  are set, every other field has its zero value.\<close>

definition new_logger :: "string \<Rightarrow> int \<Rightarrow> int \<Rightarrow> int \<Rightarrow> bool \<Rightarrow> bool \<Rightarrow> MMapLogger" where
  "new_logger fname maxsize maxage maxbackups localtime compress =
     \<lparr>Filename = fname, MaxSize = maxsize, MaxAge = maxage, MaxBackups = maxbackups,
      LocalTime = localtime, Compress = compress,
      size_l = 0, file_l = None, millCh = None, writeStartAt = 0, writeAt = 0,
      mmapSpace = nil_slice\<rparr>"

definition max_l :: "MMapLogger \<Rightarrow> int" where
  "max_l l =
     (if MaxSize l = 0 then int64 (defaultMmapMaxSize * megabyte)
      else int64 (int64 (MaxSize l) * int64 megabyte))"

definition filename :: "golib \<Rightarrow> MMapLogger \<Rightarrow> string" where
  "filename G l = (if Filename l \<noteq> [] then Filename l else default_filename G)"

text \<open>The entry of the log directory that the path \<open>l.filename()\<close> names.\<close>

definition entry :: "golib \<Rightarrow> MMapLogger \<Rightarrow> string" where
  "entry G l = filepath_Base (filename G l)"

definition prefixAndExt :: "golib \<Rightarrow> MMapLogger \<Rightarrow> string \<times> string" where
  "prefixAndExt G l =
     (let filename = filepath_Base (filename G l);
          ext = filepath_Ext filename;
          prefix = take (length filename - length ext) filename @ ''-''
      in (prefix, ext))"

text \<open>\<open>mill\<close>: start the goroutine once, then send without blocking; the channel
  holds one signal at most.\<close>

definition mill :: "MMapLogger \<Rightarrow> MMapLogger" where
  "mill l = l\<lparr>millCh := Some True\<rparr>"

text \<open>\<open>backupName\<close>; the result is the entry of the log directory that the returned
  path \<open>filepath.Join(dir, ...)\<close> names.\<close>

definition backupName :: "golib \<Rightarrow> os_state \<Rightarrow> string \<Rightarrow> bool \<Rightarrow> string" where
  "backupName G s name local =
     (let filename = filepath_Base name;
          ext = filepath_Ext filename;
          prefix = take (length filename - length ext) filename;
          t = now s;
          timestamp = time_Format G local t
      in prefix @ ''-'' @ timestamp @ ext)"

definition chown :: "os_state \<Rightarrow> string \<Rightarrow> dentry \<Rightarrow> errno option \<times> os_state" where
  "chown s name info =
     (case os_OpenFile s name of
        (Inl e, s1) \<Rightarrow> (Some e, s1)
      | (Inr f, s1) \<Rightarrow>
          (let (e, s2) = file_Close s1 (Some f) in os_Chown s2 name))"

definition close :: "MMapLogger \<Rightarrow> os_state \<Rightarrow> error option \<times> MMapLogger \<times> os_state" where
  "close l s =
     (if file_l l = None then (None, l, s)
      else let (err, s1) = file_Close s (file_l l) in
           (map_option Sys err, l\<lparr>file_l := None\<rparr>, s1))"

definition Close :: "MMapLogger \<Rightarrow> os_state \<Rightarrow> error option \<times> MMapLogger \<times> os_state" where
  "Close l s = close l s"

definition openNew :: "golib \<Rightarrow> MMapLogger \<Rightarrow> os_state \<Rightarrow> error option \<times> MMapLogger \<times> os_state" where
  "openNew G l s =
     (case os_MkdirAll s of
        (Some e, s1) \<Rightarrow> (Some (Wrapped ''can't make directories for new logfile'' e), l, s1)
      | (None, s1) \<Rightarrow>
          (let name = filename G l;
               (r, s2) =
                 (case os_Stat s1 (filepath_Base name) of
                    (Inl e, s2) \<Rightarrow> (None, s2)
                  | (Inr info, s2) \<Rightarrow>
                      (let newname = backupName G s2 name (LocalTime l) in
                       case os_Rename s2 (filepath_Base name) newname of
                         (Some e, s3) \<Rightarrow> (Some (Wrapped ''can't rename log file'' e), s3)
                       | (None, s3) \<Rightarrow>
                           (case chown s3 (filepath_Base name) info of
                              (Some e, s4) \<Rightarrow> (Some (Sys e), s4)
                            | (None, s4) \<Rightarrow> (None, s4))))
           in case r of
                Some e \<Rightarrow> (Some e, l, s2)
              | None \<Rightarrow>
                  (case os_OpenFile s2 (filepath_Base name) of
                     (Inl e, s5) \<Rightarrow> (Some (Wrapped ''can't open new logfile'' e), l, s5)
                   | (Inr f, s5) \<Rightarrow>
                       (let l1 = l\<lparr>file_l := Some f\<rparr> in
                        case file_Stat s5 f of
                          (Inl e, s6) \<Rightarrow> (Some (Sys e), l1, s6)
                        | (Inr sz, s6) \<Rightarrow> (None, l1\<lparr>size_l := sz, writeAt := sz\<rparr>, s6)))))"

text \<open>\<open>rotate\<close> (the name \<open>rotate\<close> belongs to a list function).\<close>

definition rotate_l :: "golib \<Rightarrow> MMapLogger \<Rightarrow> os_state \<Rightarrow> error option \<times> MMapLogger \<times> os_state" where
  "rotate_l G l s =
     (case close l s of
        (Some e, l1, s1) \<Rightarrow> (Some e, l1, s1)
      | (None, l1, s1) \<Rightarrow>
          (case openNew G l1 s1 of
             (Some e, l2, s2) \<Rightarrow> (Some e, l2, s2)
           | (None, l2, s2) \<Rightarrow> (None, mill l2, s2)))"

definition Rotate :: "golib \<Rightarrow> MMapLogger \<Rightarrow> os_state \<Rightarrow> error option \<times> MMapLogger \<times> os_state" where
  "Rotate G l s = rotate_l G l s"

definition openExistingOrNew ::
  "golib \<Rightarrow> MMapLogger \<Rightarrow> os_state \<Rightarrow> error option \<times> MMapLogger \<times> os_state" where
  "openExistingOrNew G l s =
     (let l0 = mill l;
          filename = filename G l0
      in case os_Stat s (filepath_Base filename) of
           (Inl ENOENT, s1) \<Rightarrow> openNew G l0 s1
         | (Inl e, s1) \<Rightarrow> (Some (Wrapped ''error getting log file info'' e), l0, s1)
         | (Inr info, s1) \<Rightarrow>
             (case os_OpenFile s1 (filepath_Base filename) of
                (Inl e, s2) \<Rightarrow> openNew G l0 s2
              | (Inr f, s2) \<Rightarrow>
                  (case file_Stat s2 f of
                     (Inl e, s3) \<Rightarrow> (Some (Sys e), l0, s3)
                   | (Inr sz, s3) \<Rightarrow>
                       (None, l0\<lparr>file_l := Some f, size_l := sz, writeAt := sz\<rparr>, s3))))"

text \<open>\<open>unMap\<close> changes no field of the writer: \<open>mmapSpace\<close> keeps its length after
  the mapping is gone. A failing \<open>Ftruncate\<close> is printed and otherwise ignored.\<close>

definition unMap :: "MMapLogger \<Rightarrow> os_state \<Rightarrow> error option \<times> os_state" where
  "unMap l s =
     (if m_len (mmapSpace l) = 0 then (None, s)
      else case syscall_Munmap s (mmapSpace l) of
             (Some e, s1) \<Rightarrow> (Some (Sys e), s1)
           | (None, s1) \<Rightarrow>
               (let (e, s2) = syscall_Ftruncate s1 (Fd s1 (file_l l)) (writeAt l) in (None, s2)))"

definition allocateSpace ::
  "golib \<Rightarrow> MMapLogger \<Rightarrow> os_state \<Rightarrow> error option \<times> MMapLogger \<times> os_state" where
  "allocateSpace G l s =
     (case unMap l s of
        (Some e, s1) \<Rightarrow> (Some e, l, s1)
      | (None, s1) \<Rightarrow>
          (let megaByteSize = defaultMegaByteSize * megabyte;
               pageLen = writeAt l sdiv pageSize;
               writeStartAt0 = pageLen * pageSize;
               (r, writeStartAt1, l1, s2) =
                 (if writeStartAt0 + megaByteSize > max_l l
                  then (case rotate_l G l s1 of
                          (Some e, l1, s2) \<Rightarrow> (Some e, writeStartAt0, l1, s2)
                        | (None, l1, s2) \<Rightarrow> (None, 0, l1, s2))
                  else (None, writeStartAt0, l, s1))
           in case r of
                Some e \<Rightarrow> (Some e, l1, s2)
              | None \<Rightarrow>
                  (case syscall_Ftruncate s2 (Fd s2 (file_l l1)) (writeStartAt1 + megaByteSize) of
                     (Some e, s3) \<Rightarrow> (Some (Sys e), l1, s3)
                   | (None, s3) \<Rightarrow>
                       (case syscall_Mmap s3 (Fd s3 (file_l l1)) writeStartAt1 megaByteSize of
                          (Inl e, s4) \<Rightarrow> (Some (Sys e), l1, s4)
                        | (Inr m, s4) \<Rightarrow>
                            (None,
                             l1\<lparr>mmapSpace := m, writeStartAt := writeStartAt1,
                                size_l := writeStartAt1 + megaByteSize\<rparr>,
                             s4)))))"

text \<open>
  \<open>Write\<close> returns the named results \<open>(n, err)\<close>. \<open>n\<close> is never assigned, so it
  is 0 wherever the code returns \<open>n\<close>; \<open>err\<close> is nil at the second early return
  and at the end.
\<close>

definition Write ::
  "golib \<Rightarrow> MMapLogger \<Rightarrow> os_state \<Rightarrow> byte list
     \<Rightarrow> (int \<times> error option) outcome \<times> MMapLogger \<times> os_state" where
  "Write G l s p =
     (let n = 0;
          writeLen = int (length p)
      in if writeLen > max_l l
         then (Done (0, Some (ErrWriteTooLarge writeLen (max_l l))), l, s)
         else
           (let (r, l1, s1) = (if file_l l = None then openExistingOrNew G l s else (None, l, s))
            in case r of
                 Some e \<Rightarrow> (Done (0, Some e), l1, s1)
               | None \<Rightarrow>
                   (let (r2, l2, s2) =
                          (if int (length p) \<ge> size_l l1 - writeAt l1
                           then allocateSpace G l1 s1 else (None, l1, s1))
                    in case r2 of
                         Some e \<Rightarrow> (Done (int (length p), Some e), l2, s2)
                       | None \<Rightarrow>
                           (let cacheAt = writeAt l2 - writeStartAt l2 in
                            if int (length p) + cacheAt > int (m_len (mmapSpace l2))
                            then (Done (int (length p), None), l2, s2)
                            else case mem_copy s2 (mmapSpace l2) cacheAt p of
                                   Panic \<Rightarrow> (Panic, l2, s2)
                                 | Done s3 \<Rightarrow>
                                     (Done (n, None),
                                      l2\<lparr>writeAt := writeAt l2 + int (length p),
                                         size_l := size_l l2 + n\<rparr>,
                                      s3)))))"

text \<open>\<open>StopMmapLogger\<close> assigns no field of the writer; both results are dropped.\<close>

definition StopMmapLogger :: "MMapLogger \<Rightarrow> os_state \<Rightarrow> MMapLogger \<times> os_state" where
  "StopMmapLogger l s =
     (let (e1, s1) = unMap l s;
          (e2, s2) = file_Close s1 (file_l l)
      in (l, s2))"

subsection \<open>The retention sweep\<close>

text \<open>A \<open>logInfo\<close> is the parsed time stamp and the \<open>os.FileInfo\<close>, of which the
  sweep reads the name only.\<close>

record logInfo =
  timestamp :: int
  Name :: string

text \<open>\<open>timeFromName\<close> (\<open>fname\<close> is its parameter \<open>filename\<close>). The slice \<open>filename[len(prefix) : len(filename)-len(ext)]\<close>
  panics when prefix and extension overlap in the name.\<close>

definition timeFromName :: "golib \<Rightarrow> string \<Rightarrow> string \<Rightarrow> string \<Rightarrow> (error + int) outcome" where
  "timeFromName G fname prefix ext =
     (if \<not> strings_HasPrefix fname prefix then Done (Inl (ErrorString ''mismatched prefix''))
      else if \<not> strings_HasSuffix fname ext
        then Done (Inl (ErrorString ''mismatched extension''))
      else if length fname - length ext < length prefix then Panic
      else let ts = drop (length prefix) (take (length fname - length ext) fname) in
        case time_Parse G ts of
          None \<Rightarrow> Done (Inl (ErrParse ts))
        | Some t \<Rightarrow> Done (Inr t))"

text \<open>The loop of \<open>oldLogFiles\<close> over the directory entries.\<close>

fun scanLogFiles :: "golib \<Rightarrow> string \<Rightarrow> string \<Rightarrow> (string \<times> bool) list \<Rightarrow> logInfo list outcome" where
  "scanLogFiles G prefix ext [] = Done []"
| "scanLogFiles G prefix ext ((name, isDir) # fs) =
     (if isDir then scanLogFiles G prefix ext fs
      else case timeFromName G name prefix ext of
             Panic \<Rightarrow> Panic
           | Done (Inr t) \<Rightarrow>
               (case scanLogFiles G prefix ext fs of
                  Panic \<Rightarrow> Panic
                | Done r \<Rightarrow> Done (\<lparr>timestamp = t, Name = name\<rparr> # r))
           | Done (Inl e) \<Rightarrow>
               (case timeFromName G name prefix (ext @ compressSuffix) of
                  Panic \<Rightarrow> Panic
                | Done (Inr t) \<Rightarrow>
                    (case scanLogFiles G prefix ext fs of
                       Panic \<Rightarrow> Panic
                     | Done r \<Rightarrow> Done (\<lparr>timestamp = t, Name = name\<rparr> # r))
                | Done (Inl e2) \<Rightarrow> scanLogFiles G prefix ext fs))"

text \<open>\<open>sort.Sort(byFormatTime(logFiles))\<close>: \<open>Less(i, j)\<close> holds when the time stamp
  of \<open>i\<close> is after the one of \<open>j\<close>, so the result is ordered newest first. Go leaves
  the order of equal time stamps open; the model keeps their order.\<close>

definition byFormatTime_sort :: "logInfo list \<Rightarrow> logInfo list" where
  "byFormatTime_sort fs = sort_key (\<lambda>f. - timestamp f) fs"

definition oldLogFiles ::
  "golib \<Rightarrow> MMapLogger \<Rightarrow> os_state \<Rightarrow> (error + logInfo list) outcome \<times> os_state" where
  "oldLogFiles G l s =
     (case ioutil_ReadDir s of
        (Inl e, s1) \<Rightarrow> (Done (Inl (Wrapped ''can't read log file directory'' e)), s1)
      | (Inr files, s1) \<Rightarrow>
          (let (prefix, ext) = prefixAndExt G l in
           case scanLogFiles G prefix ext files of
             Panic \<Rightarrow> (Panic, s1)
           | Done logFiles \<Rightarrow> (Done (Inr (byFormatTime_sort logFiles)), s1)))"

text \<open>The name under which the backup-count loop records a file in \<open>preserved\<close>.\<close>

definition backupStem :: "logInfo \<Rightarrow> string" where
  "backupStem f =
     (let fn = Name f in
      if strings_HasSuffix fn compressSuffix
      then take (length fn - length compressSuffix) fn else fn)"

text \<open>The loop of the backup-count policy; the result is \<open>(remove, remaining)\<close>.\<close>

fun keepBackups :: "int \<Rightarrow> string set \<Rightarrow> logInfo list \<Rightarrow> logInfo list \<times> logInfo list" where
  "keepBackups m preserved [] = ([], [])"
| "keepBackups m preserved (f # fs) =
     (let preserved1 = insert (backupStem f) preserved;
          (remove, remaining) = keepBackups m preserved1 fs
      in if int (card preserved1) > m then (f # remove, remaining)
         else (remove, f # remaining))"

definition hour :: int where
  "hour = 3600 * 1000000000"

text \<open>The selection of \<open>millRunOnce\<close>: from the sorted candidates and the current
  time to the lists \<open>(remove, compress)\<close>.\<close>

definition mill_select :: "MMapLogger \<Rightarrow> int \<Rightarrow> logInfo list \<Rightarrow> logInfo list \<times> logInfo list" where
  "mill_select l t files =
     (let (remove1, files1) =
            (if MaxBackups l > 0 \<and> MaxBackups l < int (length files)
             then keepBackups (MaxBackups l) {} files else ([], files));
          (remove2, files2) =
            (if MaxAge l > 0
             then (let diff = int64 (int64 (24 * hour) * int64 (MaxAge l));
                       cutoff = t + int64 (- 1 * diff)
                   in (filter (\<lambda>f. timestamp f < cutoff) files1,
                       filter (\<lambda>f. \<not> timestamp f < cutoff) files1))
             else ([], files1));
          compress =
            (if Compress l
             then filter (\<lambda>f. \<not> strings_HasSuffix (Name f) compressSuffix) files2 else [])
      in (remove1 @ remove2, compress))"

text \<open>The part of \<open>compressLogFile\<close> that runs once the deferred clean-up is in
  place: copy through the gzip writer, close it, close both files, remove the source.\<close>

definition compress_stream ::
  "golib \<Rightarrow> os_state \<Rightarrow> string \<Rightarrow> nat \<Rightarrow> nat \<Rightarrow> errno option \<times> os_state" where
  "compress_stream G s src f gzf =
     (case file_ReadAll s f of
        (Inl e, s1) \<Rightarrow> (Some e, s1)
      | (Inr d, s1) \<Rightarrow>
          (case file_Write s1 gzf 0 (gzip_Write G d) of
             (Some e, s2) \<Rightarrow> (Some e, s2)
           | (None, s2) \<Rightarrow>
               (case file_Write s2 gzf (length (gzip_Write G d)) (gzip_Close G d) of
                  (Some e, s3) \<Rightarrow> (Some e, s3)
                | (None, s3) \<Rightarrow>
                    (case file_Close s3 (Some gzf) of
                       (Some e, s4) \<Rightarrow> (Some e, s4)
                     | (None, s4) \<Rightarrow>
                         (case file_Close s4 (Some f) of
                            (Some e, s5) \<Rightarrow> (Some e, s5)
                          | (None, s5) \<Rightarrow> os_Remove s5 src)))))"

text \<open>\<open>compressLogFile\<close> with its three deferred calls, which run last in, first out:
  the clean-up of the destination, \<open>gzf.Close()\<close>, \<open>f.Close()\<close>.\<close>

definition compressLogFile :: "golib \<Rightarrow> os_state \<Rightarrow> string \<Rightarrow> string \<Rightarrow> error option \<times> os_state" where
  "compressLogFile G s src dst =
     (case os_Open s src of
        (Inl e, s1) \<Rightarrow> (Some (Wrapped ''failed to open log file'' e), s1)
      | (Inr f, s1) \<Rightarrow>
          (let (r, s2) =
                 (case os_Stat s1 src of
                    (Inl e, s2) \<Rightarrow> (Some (Wrapped ''failed to stat log file'' e), s2)
                  | (Inr fi, s2) \<Rightarrow>
                      (case chown s2 dst fi of
                         (Some e, s3) \<Rightarrow>
                           (Some (Wrapped ''failed to chown compressed log file'' e), s3)
                       | (None, s3) \<Rightarrow>
                           (case os_OpenFile s3 dst of
                              (Inl e, s4) \<Rightarrow>
                                (Some (Wrapped ''failed to open compressed log file'' e), s4)
                            | (Inr gzf, s4) \<Rightarrow>
                                (let (err, s5) = compress_stream G s4 src f gzf;
                                     (err1, s6) =
                                       (case err of
                                          None \<Rightarrow> (None, s5)
                                        | Some e \<Rightarrow>
                                            (let (x, s6) = os_Remove s5 dst
                                             in (Some (CompressFailed (Sys e)), s6)));
                                     (y, s7) = file_Close s6 (Some gzf)
                                 in (err1, s7)))));
               (z, s8) = file_Close s2 (Some f)
           in (r, s8)))"

text \<open>The two loops at the end of \<open>millRunOnce\<close>; \<open>err\<close> keeps the first error.\<close>

fun remove_all :: "os_state \<Rightarrow> logInfo list \<Rightarrow> error option \<Rightarrow> error option \<times> os_state" where
  "remove_all s [] err = (err, s)"
| "remove_all s (f # fs) err =
     (let (errRemove, s1) = os_Remove s (Name f) in
      remove_all s1 fs (if err = None \<and> errRemove \<noteq> None then map_option Sys errRemove else err))"

fun compress_all ::
  "golib \<Rightarrow> os_state \<Rightarrow> logInfo list \<Rightarrow> error option \<Rightarrow> error option \<times> os_state" where
  "compress_all G s [] err = (err, s)"
| "compress_all G s (f # fs) err =
     (let fn = Name f;
          (errCompress, s1) = compressLogFile G s fn (fn @ compressSuffix)
      in compress_all G s1 fs (if err = None \<and> errCompress \<noteq> None then errCompress else err))"

definition millRunOnce ::
  "golib \<Rightarrow> MMapLogger \<Rightarrow> os_state \<Rightarrow> error option outcome \<times> os_state" where
  "millRunOnce G l s =
     (if MaxBackups l = 0 \<and> MaxAge l = 0 \<and> \<not> Compress l then (Done None, s)
      else case oldLogFiles G l s of
             (Panic, s1) \<Rightarrow> (Panic, s1)
           | (Done (Inl e), s1) \<Rightarrow> (Done (Some e), s1)
           | (Done (Inr files), s1) \<Rightarrow>
               (let (remove, compress) = mill_select l (now s1) files;
                    (err1, s2) = remove_all s1 remove None;
                    (err2, s3) = compress_all G s2 compress err1
                in (Done err2, s3)))"

subsection \<open>Concrete inputs\<close>

text \<open>
  A library instance, an empty log directory, and the writer that \<open>New\<close> builds for
  the file \<open>./log/mmap.log\<close> with the default limits. \<open>written_logger\<close> and
  \<open>written_os\<close> are the writer and the platform after one byte has been written
  (lemma \<open>first_write\<close> below).
\<close>

definition ex_lib :: golib where
  "ex_lib =
     \<lparr>time_Format = (\<lambda>local t. ''2024-05-01T10-00-00.000''),
      time_Parse = (\<lambda>ts. if ts = ''2024-05-01T10-00-00.000'' then Some 3
                         else if ts = ''2024-04-01T10-00-00.000'' then Some 2
                         else if ts = ''2024-03-01T10-00-00.000'' then Some 1
                         else None),
      gzip_Write = (\<lambda>d. 31 # 139 # d), gzip_Close = (\<lambda>d. [0, 0]),
      default_filename = ''/tmp/app-mmap.log''\<rparr>"

definition empty_os :: os_state where
  "empty_os =
     \<lparr>dents = [], idata = (\<lambda>i. []), next_ino = 0, fdtab = (\<lambda>h. None), next_fd = 0,
      active = (\<lambda>a. None), next_addr = 0, faults = [], now = 0\<rparr>"

definition ex_logger :: MMapLogger where
  "ex_logger = new_logger ''./log/mmap.log'' 100 30 10 True False"

definition written_logger :: MMapLogger where
  "written_logger =
     ex_logger\<lparr>size_l := 10485760, file_l := Some 0, millCh := Some True, writeAt := 1,
               mmapSpace := \<lparr>m_addr = 0, m_len = 10485760\<rparr>\<rparr>"

definition written_os :: os_state where
  "written_os =
     empty_os\<lparr>dents := [(''mmap.log'', RegFile 0)],
              idata := (\<lambda>i. [])(0 := 65 # replicate 10485759 0),
              next_ino := 1, fdtab := [0 \<mapsto> 0], next_fd := 1,
              active := [0 \<mapsto> (0, 0, 10485760)], next_addr := 1\<rparr>"

text \<open>A writer with a maximum of one megabyte, below the window size, and the state
  in which \<open>openExistingOrNew\<close> leaves it on the empty directory (lemma
  \<open>small_opened\<close> below).\<close>

definition small_logger :: MMapLogger where
  "small_logger = new_logger ''./log/mmap.log'' 1 30 10 True False"

definition opened_logger :: MMapLogger where
  "opened_logger = small_logger\<lparr>file_l := Some 0, millCh := Some True\<rparr>"

definition opened_os :: os_state where
  "opened_os =
     empty_os\<lparr>dents := [(''mmap.log'', RegFile 0)], next_ino := 1, fdtab := [0 \<mapsto> 0],
              next_fd := 1\<rparr>"

text \<open>A log directory with the active file, four backups (one of them both plain and
  compressed) and a foreign file; a writer that keeps two backups; and the candidates
  that \<open>oldLogFiles\<close> finds there (lemma \<open>sweep_oldLogFiles\<close> below).\<close>

definition sweep_logger :: MMapLogger where
  "sweep_logger = new_logger ''./log/mmap.log'' 100 0 2 True False"

definition sweep_os :: os_state where
  "sweep_os =
     empty_os\<lparr>dents := [(''mmap.log'', RegFile 0),
                        (''mmap-2024-03-01T10-00-00.000.log'', RegFile 1),
                        (''mmap-2024-04-01T10-00-00.000.log.gz'', RegFile 2),
                        (''mmap-2024-04-01T10-00-00.000.log'', RegFile 3),
                        (''mmap-2024-05-01T10-00-00.000.log'', RegFile 4),
                        (''other.txt'', RegFile 5)],
              idata := (\<lambda>i. [])(1 := [104, 105]),
              next_ino := 6\<rparr>"

definition sweep_files :: "logInfo list" where
  "sweep_files =
     [\<lparr>timestamp = 3, Name = ''mmap-2024-05-01T10-00-00.000.log''\<rparr>,
      \<lparr>timestamp = 2, Name = ''mmap-2024-04-01T10-00-00.000.log''\<rparr>,
      \<lparr>timestamp = 2, Name = ''mmap-2024-04-01T10-00-00.000.log.gz''\<rparr>,
      \<lparr>timestamp = 1, Name = ''mmap-2024-03-01T10-00-00.000.log''\<rparr>]"

section \<open>Properties\<close>

lemmas os_defs = inject_def os_MkdirAll_def os_Stat_def os_Rename_def os_OpenFile_def
  os_Open_def file_Stat_def file_Close_def Fd_def resize_def syscall_Ftruncate_def
  syscall_Mmap_def syscall_Munmap_def mem_copy_def os_Remove_def os_Chown_def

lemmas const_defs = compressSuffix_def defaultMmapMaxSize_def defaultMegaByteSize_def
  megabyte_def pageSize_def int64_def signed_divide_int_def

lemmas writer_defs = new_logger_def nil_slice_def max_l_def filename_def entry_def mill_def
  backupName_def chown_def close_def Close_def openNew_def rotate_l_def Rotate_def
  openExistingOrNew_def unMap_def allocateSpace_def Write_def StopMmapLogger_def
  filepath_Base_def filepath_Ext_def

lemmas ex_defs = ex_lib_def empty_os_def ex_logger_def written_logger_def written_os_def

lemmas small_defs = small_logger_def opened_logger_def opened_os_def

lemmas sweep_defs = sweep_logger_def sweep_os_def sweep_files_def

subsection \<open>Fields that only window allocation assigns\<close>

lemma openNew_window:
  "openNew G l s = (r, l', s') \<Longrightarrow>
     writeStartAt l' = writeStartAt l \<and> mmapSpace l' = mmapSpace l"
  by (auto simp: openNew_def Let_def split: prod.splits option.splits sum.splits if_splits)

lemma close_window:
  "close l s = (r, l', s') \<Longrightarrow>
     writeStartAt l' = writeStartAt l \<and> mmapSpace l' = mmapSpace l"
  by (auto simp: close_def Let_def split: prod.splits if_splits)

lemma rotate_l_window:
  "rotate_l G l s = (r, l', s') \<Longrightarrow>
     writeStartAt l' = writeStartAt l \<and> mmapSpace l' = mmapSpace l"
  by (auto simp: rotate_l_def mill_def split: prod.splits option.splits
        dest!: close_window openNew_window)

lemma openExistingOrNew_window:
  "openExistingOrNew G l s = (r, l', s') \<Longrightarrow>
     writeStartAt l' = writeStartAt l \<and> mmapSpace l' = mmapSpace l"
  by (auto simp: openExistingOrNew_def mill_def Let_def
        split: prod.splits option.splits sum.splits errno.splits dest!: openNew_window)

lemma allocateSpace_writeStartAt:
  "allocateSpace G l s = (r, l', s') \<Longrightarrow>
     writeStartAt l' =
       (if r \<noteq> None then writeStartAt l
        else if (writeAt l sdiv pageSize) * pageSize + defaultMegaByteSize * megabyte > max_l l
          then 0
        else (writeAt l sdiv pageSize) * pageSize)"
  by (auto simp: allocateSpace_def Let_def split: prod.splits option.splits sum.splits if_splits
        dest!: rotate_l_window)

lemma Write_writeStartAt:
  "Write G l s p = (r, l', s') \<Longrightarrow> pageSize dvd writeStartAt l \<Longrightarrow>
     pageSize dvd writeStartAt l'"
  by (auto simp: Write_def Let_def
        split: prod.splits option.splits sum.splits if_splits outcome.splits
        dest!: allocateSpace_writeStartAt openExistingOrNew_window)

lemma sdiv_nonneg_pageSize: "0 \<le> k \<Longrightarrow> k sdiv pageSize = k div pageSize"
  by (cases "k = 0") (simp_all add: signed_divide_int_def pageSize_def)

subsection \<open>The first write of the example\<close>

lemma first_write:
  "Write ex_lib ex_logger empty_os [65] = (Done (0, None), written_logger, written_os)"
  by (simp add: ex_defs os_defs const_defs writer_defs Let_def)

subsection \<open>What Write returns and advances\<close>

text \<open>
  Claim C1: for a buffer no longer than the maximum, with opening and window allocation
  succeeding, \<open>Write\<close> returns the length of the buffer as accepted count and advances
  the write cursor and the file size by that length.

  The code does not: the result \<open>n\<close> is never assigned. On the empty directory the
  first write of one byte returns the count 0; a second write of one byte, which fits
  the mapped window, copies the byte and moves the cursor, returns the count 0 again and
  leaves the size field where it was.
\<close>

theorem Write_count_and_size_not_advanced:
  "fst (Write ex_lib ex_logger empty_os [65]) = Done (0, None)
   \<and> fst (Write ex_lib written_logger written_os [66]) = Done (0, None)
   \<and> writeAt (fst (snd (Write ex_lib written_logger written_os [66]))) = writeAt written_logger + 1
   \<and> size_l (fst (snd (Write ex_lib written_logger written_os [66]))) = size_l written_logger
   \<and> take 2 (idata (snd (snd (Write ex_lib written_logger written_os [66]))) 0) = [65, 66]"
  by (simp add: first_write) (simp add: ex_defs os_defs const_defs writer_defs Let_def)

text \<open>
  Claim C2: a write accepted without an error finds, after the reallocation made for
  it, a window that holds the whole buffer, and the whole buffer is copied; no accepted
  write is dropped.

  The code drops one: a buffer of one byte more than the window (and well below the
  maximum file size) is answered with its full length and no error, while the cursor
  stays at 0 and the mapped file holds zeros only.
\<close>

theorem Write_drops_buffer_larger_than_window:
  "int (length (replicate 10485761 (65::byte))) \<le> max_l ex_logger
   \<and> fst (Write ex_lib ex_logger empty_os (replicate 10485761 65)) = Done (10485761, None)
   \<and> writeAt (fst (snd (Write ex_lib ex_logger empty_os (replicate 10485761 65)))) = 0
   \<and> m_len (mmapSpace (fst (snd (Write ex_lib ex_logger empty_os (replicate 10485761 65))))) = 10485760
   \<and> idata (snd (snd (Write ex_lib ex_logger empty_os (replicate 10485761 65)))) 0 = replicate 10485760 0"
  by (simp add: ex_defs os_defs const_defs writer_defs Let_def)

subsection \<open>Rotation and the mapped window\<close>

text \<open>
  Claim C3: every rotation first unmaps the window, which truncates the file to the
  write cursor, before the file is closed and renamed; so the archived file is as long
  as the cursor was.

  \<open>rotate\<close> calls \<open>close\<close> and \<open>openNew\<close> only. After one byte has been written,
  \<open>Rotate\<close> archives a file of the full window length, and the old window stays
  mapped over it.
\<close>

theorem Rotate_keeps_window_and_padding:
  "writeAt written_logger = 1
   \<and> fst (Rotate ex_lib written_logger written_os) = None
   \<and> map_of (dents (snd (snd (Rotate ex_lib written_logger written_os))))
        ''mmap-2024-05-01T10-00-00.000.log'' = Some (RegFile 0)
   \<and> length (idata (snd (snd (Rotate ex_lib written_logger written_os))) 0) = 10485760
   \<and> active (snd (snd (Rotate ex_lib written_logger written_os))) 0 = Some (0, 0, 10485760)"
  by (simp add: ex_defs os_defs const_defs writer_defs Let_def)

subsection \<open>The size limit of a write\<close>

lemma openNew_error_kind:
  "openNew G l s = (Some e, l', s') \<Longrightarrow> e \<noteq> ErrWriteTooLarge a b"
  by (auto simp: openNew_def Let_def split: prod.splits option.splits sum.splits if_splits)

lemma openExistingOrNew_error_kind:
  "openExistingOrNew G l s = (Some e, l', s') \<Longrightarrow> e \<noteq> ErrWriteTooLarge a b"
  by (auto simp: openExistingOrNew_def Let_def
        split: prod.splits option.splits sum.splits errno.splits dest!: openNew_error_kind)

lemma rotate_error_kind:
  "rotate_l G l s = (Some e, l', s') \<Longrightarrow> e \<noteq> ErrWriteTooLarge a b"
  by (auto simp: rotate_l_def close_def Let_def
        split: prod.splits option.splits sum.splits if_splits dest!: openNew_error_kind)

lemma allocateSpace_error_kind:
  "allocateSpace G l s = (Some e, l', s') \<Longrightarrow> e \<noteq> ErrWriteTooLarge a b"
  by (auto simp: allocateSpace_def unMap_def Let_def
        split: prod.splits option.splits sum.splits if_splits dest!: rotate_error_kind)

text \<open>
  Claim C4: \<open>Write\<close> rejects a buffer, with the write-too-large error, exactly when
  its length is greater than the maximum file size; then nothing else happens: the
  writer and the platform are as before (no file opened, cursor, size, window start and
  mapping unchanged). A buffer as long as the maximum is not rejected by this check.
\<close>

theorem Write_too_large:
  "(\<exists>n a b. fst (Write G l s p) = Done (n, Some (ErrWriteTooLarge a b))) = (max_l l < int (length p))
   \<and> (max_l l < int (length p) \<longrightarrow>
        Write G l s p = (Done (0, Some (ErrWriteTooLarge (int (length p)) (max_l l))), l, s))"
  by (auto simp: Write_def Let_def split: prod.splits option.splits if_splits outcome.splits
        dest: allocateSpace_error_kind openExistingOrNew_error_kind)

theorem Write_too_large_witness:
  "max_l ex_logger < int (length (replicate 104857601 (65::byte)))
   \<and> Write ex_lib ex_logger empty_os (replicate 104857601 65)
       = (Done (0, Some (ErrWriteTooLarge 104857601 104857600)), ex_logger, empty_os)
   \<and> \<not> max_l ex_logger < int (length (replicate 104857600 (65::byte)))
   \<and> \<not> (\<exists>n a b. fst (Write ex_lib ex_logger empty_os (replicate 104857600 65))
                   = Done (n, Some (ErrWriteTooLarge a b)))"
  using Write_too_large [of ex_lib ex_logger empty_os "replicate 104857601 65"]
    Write_too_large [of ex_lib ex_logger empty_os "replicate 104857600 65"]
  by (simp add: ex_logger_def new_logger_def max_l_def const_defs)

subsection \<open>Alignment of the window start\<close>

text \<open>
  Claim C6: the start of the mapped window is always a multiple of the page size. It is 0
  in a new writer; an allocation that succeeds sets it to the page-aligned floor of the
  write cursor, or to 0 when it rotates; \<open>Write\<close>, \<open>Rotate\<close>, \<open>Close\<close>, the stop
  operation and allocation keep it a multiple of the page size.
\<close>

theorem window_start_page_aligned:
  assumes "pageSize dvd writeStartAt l" and "0 \<le> writeAt l"
  shows "writeStartAt (new_logger fn ms ma mb lt c) = 0
    \<and> pageSize dvd writeStartAt (fst (snd (Write G l s p)))
    \<and> pageSize dvd writeStartAt (fst (snd (Rotate G l s)))
    \<and> pageSize dvd writeStartAt (fst (snd (Close l s)))
    \<and> pageSize dvd writeStartAt (fst (StopMmapLogger l s))
    \<and> pageSize dvd writeStartAt (fst (snd (allocateSpace G l s)))
    \<and> (fst (allocateSpace G l s) = None \<longrightarrow>
         writeStartAt (fst (snd (allocateSpace G l s)))
           = (if (writeAt l div pageSize) * pageSize + defaultMegaByteSize * megabyte > max_l l
              then 0 else (writeAt l div pageSize) * pageSize))"
proof -
  obtain r1 l1 s1 where w: "Write G l s p = (r1, l1, s1)" by (cases "Write G l s p") auto
  obtain r2 l2 s2 where r: "rotate_l G l s = (r2, l2, s2)" by (cases "rotate_l G l s") auto
  obtain r3 l3 s3 where c: "close l s = (r3, l3, s3)" by (cases "close l s") auto
  obtain r4 l4 s4 where a: "allocateSpace G l s = (r4, l4, s4)"
    by (cases "allocateSpace G l s") auto
  have "pageSize dvd writeStartAt l1" using Write_writeStartAt [OF w assms(1)] .
  moreover have "writeStartAt l2 = writeStartAt l" using rotate_l_window [OF r] by simp
  moreover have "writeStartAt l3 = writeStartAt l" using close_window [OF c] by simp
  moreover have "fst (StopMmapLogger l s) = l"
    by (simp add: StopMmapLogger_def split: prod.splits)
  moreover note allocateSpace_writeStartAt [OF a] sdiv_nonneg_pageSize [OF assms(2)]
  ultimately show ?thesis
    using assms(1) w r c a by (auto simp: new_logger_def Rotate_def Close_def)
qed

theorem window_start_page_aligned_witness:
  "pageSize dvd writeStartAt (written_logger\<lparr>writeAt := 5000\<rparr>)
   \<and> 0 \<le> writeAt (written_logger\<lparr>writeAt := 5000\<rparr>)
   \<and> fst (allocateSpace ex_lib (written_logger\<lparr>writeAt := 5000\<rparr>) written_os) = None
   \<and> writeStartAt (fst (snd (allocateSpace ex_lib (written_logger\<lparr>writeAt := 5000\<rparr>) written_os))) = 4096
   \<and> pageSize dvd writeStartAt (fst (snd (Write ex_lib (written_logger\<lparr>writeAt := 5000\<rparr>) written_os [1, 2, 3])))"
  using window_start_page_aligned [where l = "written_logger\<lparr>writeAt := 5000\<rparr>"
      and G = ex_lib and s = written_os and p = "[1, 2, 3]"]
  by (simp add: ex_defs os_defs const_defs writer_defs Let_def)

subsection \<open>Paths\<close>

lemma inject_calm: "faults s = [] \<Longrightarrow> inject s = (False, s)"
  by (simp add: inject_def)

lemma ext_scan_shape:
  "ext_scan r acc = [] \<or> (\<exists>k. k < length r \<and> r ! k = CHR ''.'' \<and> ext_scan r acc = CHR ''.'' # rev (take k r) @ acc)"
proof (induction r arbitrary: acc)
  case Nil
  then show ?case by simp
next
  case (Cons c cs)
  show ?case
  proof (cases "c = CHR ''/'' \<or> c = CHR ''.''")
    case True
    then show ?thesis by auto
  next
    case False
    from Cons.IH [of "c # acc"] show ?thesis
    proof
      assume "ext_scan cs (c # acc) = []"
      with False show ?thesis by simp
    next
      assume "\<exists>k. k < length cs \<and> cs ! k = CHR ''.'' \<and> ext_scan cs (c # acc) = CHR ''.'' # rev (take k cs) @ c # acc"
      then obtain k where k: "k < length cs" "cs ! k = CHR ''.''"
        "ext_scan cs (c # acc) = CHR ''.'' # rev (take k cs) @ c # acc" by blast
      with False have "Suc k < length (c # cs) \<and> (c # cs) ! Suc k = CHR ''.''
         \<and> ext_scan (c # cs) acc = CHR ''.'' # rev (take (Suc k) (c # cs)) @ acc" by simp
      then show ?thesis by blast
    qed
  qed
qed

lemma filepath_Ext_shape:
  "filepath_Ext x = [] \<or> (\<exists>pre rest. x = pre @ filepath_Ext x \<and> filepath_Ext x = CHR ''.'' # rest)"
proof -
  from ext_scan_shape [of "rev x" "[]"] show ?thesis
  proof
    assume "ext_scan (rev x) [] = []" then show ?thesis by (simp add: filepath_Ext_def)
  next
    assume "\<exists>k. k < length (rev x) \<and> rev x ! k = CHR ''.'' \<and> ext_scan (rev x) [] = CHR ''.'' # rev (take k (rev x)) @ []"
    then obtain k where k: "k < length x" "rev x ! k = CHR ''.''"
       "filepath_Ext x = CHR ''.'' # rev (take k (rev x))" by (auto simp: filepath_Ext_def)
    have "rev x = take k (rev x) @ rev x ! k # drop (Suc k) (rev x)"
      using k(1) by (simp add: id_take_nth_drop [symmetric])
    then have "rev (rev x) = rev (take k (rev x) @ CHR ''.'' # drop (Suc k) (rev x))"
      using k(2) by simp
    then have "x = rev (drop (Suc k) (rev x)) @ filepath_Ext x" using k(3) by simp
    with k(3) show ?thesis by blast
  qed
qed

lemma filepath_Ext_split:
  "take (length x - length (filepath_Ext x)) x @ filepath_Ext x = x"
  using filepath_Ext_shape [of x]
proof
  assume "filepath_Ext x = []" then show ?thesis by simp
next
  assume "\<exists>pre rest. x = pre @ filepath_Ext x \<and> filepath_Ext x = CHR ''.'' # rest"
  then obtain pre where "x = pre @ filepath_Ext x" by blast
  then have "take (length x - length (filepath_Ext x)) x = pre"
    by (metis add_diff_cancel_right' append_eq_conv_conj length_append)
  then show ?thesis using \<open>x = pre @ filepath_Ext x\<close> by simp
qed

lemma backupName_neq: "backupName G s name local \<noteq> filepath_Base name"
proof
  assume a: "backupName G s name local = filepath_Base name"
  let ?b = "filepath_Base name"
  have "length (backupName G s name local)
        = length (take (length ?b - length (filepath_Ext ?b)) ?b @ filepath_Ext ?b) + 1 + length (time_Format G local (now s))"
    by (simp add: backupName_def Let_def)
  then have "length (backupName G s name local) > length ?b" by (simp only: filepath_Ext_split)
  with a show False by simp
qed

subsection \<open>System calls when no failure is injected\<close>

lemma os_MkdirAll_calm: "faults s = [] \<Longrightarrow> os_MkdirAll s = (None, s)"
  by (simp add: os_MkdirAll_def inject_calm)

lemma os_Stat_calm:
  "faults s = [] \<Longrightarrow>
     os_Stat s n = (case map_of (dents s) n of None \<Rightarrow> Inl ENOENT | Some d \<Rightarrow> Inr d, s)"
  by (simp add: os_Stat_def inject_calm split: option.splits)

lemma os_Rename_calm:
  "faults s = [] \<Longrightarrow> map_of (dents s) old = Some d \<Longrightarrow> old \<noteq> new \<Longrightarrow>
     os_Rename s old new = (None, s') \<Longrightarrow>
     s' = s\<lparr>dents := AList.update new d (AList.delete old (dents s))\<rparr>"
  by (simp add: os_Rename_def inject_calm split: if_splits)

lemma os_OpenFile_calm_new:
  "faults s = [] \<Longrightarrow> map_of (dents s) n = None \<Longrightarrow>
     os_OpenFile s n =
       (Inr (next_fd s),
        s\<lparr>dents := AList.update n (RegFile (next_ino s)) (dents s),
          idata := (idata s)(next_ino s := []),
          next_ino := Suc (next_ino s),
          fdtab := (fdtab s)(next_fd s \<mapsto> next_ino s),
          next_fd := Suc (next_fd s)\<rparr>)"
  by (simp add: os_OpenFile_def inject_calm)

lemma os_OpenFile_calm_old:
  "faults s = [] \<Longrightarrow> map_of (dents s) n = Some (RegFile i) \<Longrightarrow>
     os_OpenFile s n =
       (Inr (next_fd s), s\<lparr>fdtab := (fdtab s)(next_fd s \<mapsto> i), next_fd := Suc (next_fd s)\<rparr>)"
  by (simp add: os_OpenFile_def inject_calm)

lemma file_Close_calm_open:
  "faults s = [] \<Longrightarrow> fdtab s h = Some i \<Longrightarrow>
     file_Close s (Some h) = (None, s\<lparr>fdtab := (fdtab s)(h := None)\<rparr>)"
  by (simp add: file_Close_def inject_calm)

lemma os_Chown_calm:
  "faults s = [] \<Longrightarrow> map_of (dents s) n = Some d \<Longrightarrow> os_Chown s n = (None, s)"
  by (simp add: os_Chown_def inject_calm)

lemma file_Stat_calm:
  "faults s = [] \<Longrightarrow> fdtab s h = Some i \<Longrightarrow>
     file_Stat s h = (Inr (int (length (idata s i))), s)"
  by (simp add: file_Stat_def inject_calm)

text \<open>Creating the file when the name is free, with no failure injected.\<close>

lemma open_fresh_calm:
  assumes "faults s = []" and "map_of (dents s) n = None"
  shows "\<exists>h i s'. os_OpenFile s n = (Inr h, s') \<and> faults s' = [] \<and> now s' = now s
     \<and> active s' = active s \<and> next_addr s' = next_addr s
     \<and> fdtab s' h = Some i \<and> map_of (dents s') n = Some (RegFile i) \<and> idata s' i = []
     \<and> (\<forall>m. m \<noteq> n \<longrightarrow> map_of (dents s') m = map_of (dents s) m)"
  using assms by (simp add: os_OpenFile_calm_new update_conv')

lemma chown_calm_fresh:
  assumes "faults s = []" and "map_of (dents s) n = None"
  shows "\<exists>i s'. chown s n info = (None, s') \<and> faults s' = [] \<and> now s' = now s
     \<and> active s' = active s \<and> next_addr s' = next_addr s
     \<and> map_of (dents s') n = Some (RegFile i) \<and> idata s' i = []
     \<and> (\<forall>m. m \<noteq> n \<longrightarrow> map_of (dents s') m = map_of (dents s) m)"
  using assms
  by (simp add: chown_def os_OpenFile_calm_new file_Close_calm_open os_Chown_calm update_conv')

lemma open_old_calm:
  assumes "faults s = []" and "map_of (dents s) n = Some (RegFile i)"
  shows "\<exists>h s'. os_OpenFile s n = (Inr h, s') \<and> faults s' = [] \<and> now s' = now s
     \<and> active s' = active s \<and> next_addr s' = next_addr s \<and> idata s' = idata s
     \<and> fdtab s' h = Some i \<and> dents s' = dents s"
  using assms by (simp add: os_OpenFile_calm_old)

lemma openNew_calm:
  assumes f: "faults s = []" and o: "openNew G l s = (None, l', s')"
  shows "faults s' = [] \<and> now s' = now s \<and> active s' = active s \<and> next_addr s' = next_addr s
     \<and> (\<exists>h i. l' = l\<lparr>file_l := Some h, size_l := 0, writeAt := 0\<rparr> \<and> fdtab s' h = Some i
            \<and> map_of (dents s') (entry G l) = Some (RegFile i) \<and> idata s' i = [])
     \<and> (\<forall>d. map_of (dents s) (entry G l) = Some d \<longrightarrow>
            map_of (dents s') (backupName G s (filename G l) (LocalTime l)) = Some d)"
proof (cases "map_of (dents s) (entry G l)")
  case None
  then have n: "map_of (dents s) (filepath_Base (filename G l)) = None" by (simp add: entry_def)
  from open_fresh_calm [OF f n] obtain h i s1 where
    op: "os_OpenFile s (filepath_Base (filename G l)) = (Inr h, s1)" and
    s1: "faults s1 = []" "now s1 = now s" "active s1 = active s" "next_addr s1 = next_addr s"
      "fdtab s1 h = Some i" "map_of (dents s1) (filepath_Base (filename G l)) = Some (RegFile i)"
      "idata s1 i = []"
    by blast
  have "openNew G l s = (None, l\<lparr>file_l := Some h, size_l := 0, writeAt := 0\<rparr>, s1)"
    by (simp add: openNew_def os_MkdirAll_calm [OF f] os_Stat_calm [OF f] n op
          file_Stat_calm [OF s1(1) s1(5)] s1(7))
  with o s1 None show ?thesis by (auto simp: entry_def)
next
  case (Some d)
  let ?base = "filepath_Base (filename G l)"
  let ?new = "backupName G s (filename G l) (LocalTime l)"
  have d: "map_of (dents s) ?base = Some d" using Some by (simp add: entry_def)
  have ne: "?base \<noteq> ?new" using backupName_neq [of G s "filename G l" "LocalTime l"] by simp
  obtain e s3 where rn: "os_Rename s ?base ?new = (e, s3)" by (cases "os_Rename s ?base ?new") auto
  show ?thesis
  proof (cases e)
    case (Some x)
    with o rn show ?thesis
      by (simp add: openNew_def os_MkdirAll_calm [OF f] os_Stat_calm [OF f] d)
  next
    case None
    with rn have s3: "s3 = s\<lparr>dents := AList.update ?new d (AList.delete ?base (dents s))\<rparr>"
      using os_Rename_calm [OF f d ne] by simp
    have f3: "faults s3 = []" using f s3 by simp
    have n3: "map_of (dents s3) ?base = None" using ne s3 by (simp add: update_conv' delete_conv')
    have b3: "map_of (dents s3) ?new = Some d" using s3 by (simp add: update_conv')
    from chown_calm_fresh [OF f3 n3, of d] obtain i s4 where
      ch: "chown s3 ?base d = (None, s4)" and
      s4: "faults s4 = []" "now s4 = now s3" "active s4 = active s3" "next_addr s4 = next_addr s3"
        "map_of (dents s4) ?base = Some (RegFile i)" "idata s4 i = []"
        "\<forall>m. m \<noteq> ?base \<longrightarrow> map_of (dents s4) m = map_of (dents s3) m"
      by blast
    from open_old_calm [OF s4(1) s4(5)] obtain h s5 where
      op: "os_OpenFile s4 ?base = (Inr h, s5)" and
      s5: "faults s5 = []" "now s5 = now s4" "active s5 = active s4" "next_addr s5 = next_addr s4"
        "idata s5 = idata s4" "fdtab s5 h = Some i" "dents s5 = dents s4"
      by blast
    have "openNew G l s = (None, l\<lparr>file_l := Some h, size_l := 0, writeAt := 0\<rparr>, s5)"
      using rn None
      by (simp add: openNew_def os_MkdirAll_calm [OF f] os_Stat_calm [OF f] d ch op
            file_Stat_calm [OF s5(1) s5(6)] s5(5) s4(6))
    with o have l': "l' = l\<lparr>file_l := Some h, size_l := 0, writeAt := 0\<rparr>" and s': "s' = s5"
      by simp_all
    have "map_of (dents s5) ?new = Some d" using s5(7) s4(7) ne b3 by simp
    moreover have "now s5 = now s" "active s5 = active s" "next_addr s5 = next_addr s"
      using s5 s4 s3 by simp_all
    ultimately show ?thesis using l' s' s5 s4 d Some by (auto simp: entry_def)
  qed
qed

lemma unMap_calm:
  "faults s = [] \<Longrightarrow> unMap l s = (r, s') \<Longrightarrow>
     faults s' = [] \<and> dents s' = dents s \<and> fdtab s' = fdtab s \<and> now s' = now s
     \<and> (m_len (mmapSpace l) \<noteq> 0 \<longrightarrow> active s' (m_addr (mmapSpace l)) = None)
     \<and> (\<forall>h i. file_l l = Some h \<and> fdtab s h = Some i \<and> m_len (mmapSpace l) \<noteq> 0
              \<and> active s (m_addr (mmapSpace l)) \<noteq> None \<and> 0 \<le> writeAt l
            \<longrightarrow> length (idata s' i) = nat (writeAt l))"
  by (auto simp: unMap_def syscall_Munmap_def syscall_Ftruncate_def Fd_def inject_calm resize_def
        split: option.splits if_splits prod.splits)

lemma close_calm:
  "faults s = [] \<Longrightarrow> close l s = (None, l1, s1) \<Longrightarrow>
     faults s1 = [] \<and> dents s1 = dents s \<and> now s1 = now s \<and> l1 = l\<lparr>file_l := None\<rparr>"
  by (auto simp: close_def file_Close_def inject_calm split: option.splits if_splits prod.splits)

lemma rotate_l_calm:
  assumes f: "faults s = []" and r: "rotate_l G l s = (None, l', s')"
  shows "faults s' = [] \<and> now s' = now s
     \<and> (\<exists>h i. l' = l\<lparr>file_l := Some h, size_l := 0, writeAt := 0, millCh := Some True\<rparr>
            \<and> fdtab s' h = Some i
            \<and> map_of (dents s') (entry G l) = Some (RegFile i) \<and> idata s' i = [])
     \<and> (\<forall>d. map_of (dents s) (entry G l) = Some d \<longrightarrow>
            map_of (dents s') (backupName G s (filename G l) (LocalTime l)) = Some d)"
proof -
  obtain e1 l1 s1 where c: "close l s = (e1, l1, s1)" by (cases "close l s") auto
  with r have e1: "e1 = None" by (cases e1) (simp_all add: rotate_l_def)
  note C = close_calm [OF f c [unfolded e1]]
  obtain e2 l2 s2 where o: "openNew G l1 s1 = (e2, l2, s2)" by (cases "openNew G l1 s1") auto
  with r c e1 have e2: "e2 = None" by (cases e2) (simp_all add: rotate_l_def)
  from C have f1: "faults s1 = []" by simp
  note O = openNew_calm [OF f1 o [unfolded e2]]
  have same: "entry G l1 = entry G l" "filename G l1 = filename G l" "LocalTime l1 = LocalTime l"
    using C by (simp_all add: entry_def filename_def)
  have bn: "backupName G s1 (filename G l1) (LocalTime l1) = backupName G s (filename G l) (LocalTime l)"
    using C same by (simp add: backupName_def)
  from r c e1 o e2 have res: "l' = mill l2" "s' = s2" by (simp_all add: rotate_l_def)
  from O obtain h i where hi: "l2 = l1\<lparr>file_l := Some h, size_l := 0, writeAt := 0\<rparr>"
    "fdtab s2 h = Some i" "map_of (dents s2) (entry G l1) = Some (RegFile i)" "idata s2 i = []"
    by blast
  have "l' = l\<lparr>file_l := Some h, size_l := 0, writeAt := 0, millCh := Some True\<rparr>"
    using res hi C by (simp add: mill_def)
  then show ?thesis using O C res hi same bn by auto
qed

lemma file_Close_calm:
  "faults s = [] \<Longrightarrow> file_Close s f = (r, s') \<Longrightarrow>
     faults s' = [] \<and> dents s' = dents s \<and> active s' = active s \<and> idata s' = idata s
     \<and> (\<forall>h. fdtab s' h \<noteq> None \<longrightarrow> fdtab s h \<noteq> None)
     \<and> (\<forall>h. f = Some h \<longrightarrow> fdtab s' h = None)"
  by (auto simp: file_Close_def inject_calm split: option.splits if_splits prod.splits)

lemma unMap_again:
  "m_len (mmapSpace l) \<noteq> 0 \<longrightarrow> active s (m_addr (mmapSpace l)) = None \<Longrightarrow> unMap l s = (fst (unMap l s), s)"
  by (auto simp: unMap_def syscall_Munmap_def split: option.splits if_splits prod.splits)

lemma file_Close_again:
  "\<forall>h. f = Some h \<longrightarrow> fdtab s h = None \<Longrightarrow> file_Close s f = (fst (file_Close s f), s)"
  by (auto simp: file_Close_def split: option.splits if_splits prod.splits)

subsection \<open>The stop operation\<close>

text \<open>
  Claim C9: the stop operation unmaps the window and closes the file, a second call
  changes nothing, and no successor file is opened.

  With no failure injected: the writer is unchanged; after the call the window is not
  mapped and the handle is closed; the directory entries are as before and no handle
  was opened; when the window was mapped over the open file, the file has been cut to
  the write cursor; stopping again returns the same writer and the same platform state.
\<close>

theorem Stop_idempotent:
  assumes "faults s = []"
  shows "fst (StopMmapLogger l s) = l
    \<and> StopMmapLogger l (snd (StopMmapLogger l s)) = StopMmapLogger l s
    \<and> dents (snd (StopMmapLogger l s)) = dents s
    \<and> (\<forall>h. fdtab (snd (StopMmapLogger l s)) h \<noteq> None \<longrightarrow> fdtab s h \<noteq> None)
    \<and> (\<forall>h. file_l l = Some h \<longrightarrow> fdtab (snd (StopMmapLogger l s)) h = None)
    \<and> (m_len (mmapSpace l) \<noteq> 0 \<longrightarrow> active (snd (StopMmapLogger l s)) (m_addr (mmapSpace l)) = None)
    \<and> (\<forall>h i. file_l l = Some h \<and> fdtab s h = Some i \<and> m_len (mmapSpace l) \<noteq> 0
              \<and> active s (m_addr (mmapSpace l)) \<noteq> None \<and> 0 \<le> writeAt l
            \<longrightarrow> length (idata (snd (StopMmapLogger l s)) i) = nat (writeAt l))"
proof -
  obtain r1 s1 where u: "unMap l s = (r1, s1)" by (cases "unMap l s") auto
  obtain r2 s2 where c: "file_Close s1 (file_l l) = (r2, s2)"
    by (cases "file_Close s1 (file_l l)") auto
  have st: "StopMmapLogger l s = (l, s2)" by (simp add: StopMmapLogger_def u c)
  note U = unMap_calm [OF assms u]
  from U have f1: "faults s1 = []" by simp
  note C = file_Close_calm [OF f1 c]
  have gone: "m_len (mmapSpace l) \<noteq> 0 \<longrightarrow> active s2 (m_addr (mmapSpace l)) = None"
    using U C by simp
  have closed: "\<forall>h. file_l l = Some h \<longrightarrow> fdtab s2 h = None" using C by simp
  have u2: "unMap l s2 = (fst (unMap l s2), s2)" using unMap_again [OF gone] .
  have c2: "file_Close s2 (file_l l) = (fst (file_Close s2 (file_l l)), s2)"
    using file_Close_again [OF closed] .
  have again: "StopMmapLogger l s2 = (l, s2)"
    unfolding StopMmapLogger_def by (subst u2, simp, subst c2, simp)
  show ?thesis using st again U C gone closed by auto
qed

theorem Stop_idempotent_witness:
  "faults written_os = []
   \<and> StopMmapLogger written_logger (snd (StopMmapLogger written_logger written_os))
       = StopMmapLogger written_logger written_os
   \<and> dents (snd (StopMmapLogger written_logger written_os)) = [(''mmap.log'', RegFile 0)]
   \<and> fdtab (snd (StopMmapLogger written_logger written_os)) 0 = None
   \<and> active (snd (StopMmapLogger written_logger written_os)) 0 = None
   \<and> length (idata (snd (StopMmapLogger written_logger written_os)) 0) = 1"
  using Stop_idempotent [of written_os written_logger]
  by (simp add: ex_defs new_logger_def)

subsection \<open>Rotation inside window allocation\<close>

lemma small_opened:
  "openExistingOrNew ex_lib small_logger empty_os = (None, opened_logger, opened_os)"
  by (simp add: small_defs ex_defs os_defs const_defs writer_defs Let_def fun_upd_idem)

text \<open>
  Claim C5: when the page-aligned window start plus the window size exceeds the maximum
  file size, allocation rotates instead of extending the file, and afterwards cursor,
  window start and size are 0, with a fresh window over the new file from offset 0.

  As stated this fails for the size: allocation ends with
  \<open>l.size = writeStartAt + megaByteSize\<close>, the length to which the new file has
  been extended. For the writer with a maximum of one megabyte the size is 10485760
  after the allocation.
\<close>

theorem allocateSpace_rotation_size_counterexample:
  "\<not> ((writeAt opened_logger sdiv pageSize) * pageSize + defaultMegaByteSize * megabyte
          > max_l opened_logger
        \<longrightarrow> writeAt (fst (snd (allocateSpace ex_lib opened_logger opened_os))) = 0
          \<and> writeStartAt (fst (snd (allocateSpace ex_lib opened_logger opened_os))) = 0
          \<and> size_l (fst (snd (allocateSpace ex_lib opened_logger opened_os))) = 0)"
  by (simp add: small_defs ex_defs os_defs const_defs writer_defs Let_def)

text \<open>
  Claim C5 as amended: when no system call fails and the allocation succeeds under that
  condition, the write cursor and the window start are 0, the size field is the window
  size, the sweep has been signalled, the old file (if there was one) is found under
  the backup name, and the canonical name holds a new file of window size, all zeros,
  over which the new window is mapped from offset 0.
\<close>

theorem allocateSpace_rotation:
  assumes f: "faults s = []"
    and ok: "fst (allocateSpace G l s) = None"
    and big: "(writeAt l sdiv pageSize) * pageSize + defaultMegaByteSize * megabyte > max_l l"
  shows "writeAt (fst (snd (allocateSpace G l s))) = 0
     \<and> writeStartAt (fst (snd (allocateSpace G l s))) = 0
     \<and> size_l (fst (snd (allocateSpace G l s))) = defaultMegaByteSize * megabyte
     \<and> millCh (fst (snd (allocateSpace G l s))) = Some True
     \<and> m_len (mmapSpace (fst (snd (allocateSpace G l s)))) = nat (defaultMegaByteSize * megabyte)
     \<and> (\<exists>h i. file_l (fst (snd (allocateSpace G l s))) = Some h
           \<and> fdtab (snd (snd (allocateSpace G l s))) h = Some i
           \<and> map_of (dents (snd (snd (allocateSpace G l s)))) (entry G l) = Some (RegFile i)
           \<and> active (snd (snd (allocateSpace G l s)))
                (m_addr (mmapSpace (fst (snd (allocateSpace G l s)))))
               = Some (i, 0, nat (defaultMegaByteSize * megabyte))
           \<and> idata (snd (snd (allocateSpace G l s))) i
               = replicate (nat (defaultMegaByteSize * megabyte)) 0)
     \<and> (\<forall>d. map_of (dents s) (entry G l) = Some d \<longrightarrow>
           map_of (dents (snd (snd (allocateSpace G l s))))
             (backupName G s (filename G l) (LocalTime l)) = Some d)"
proof -
  obtain e0 s1 where u: "unMap l s = (e0, s1)" by (cases "unMap l s") auto
  have e0: "e0 = None" using ok u by (cases e0) (simp_all add: allocateSpace_def)
  note U = unMap_calm [OF f u]
  then have f1: "faults s1 = []" by simp
  obtain e1 l2 s2 where r: "rotate_l G l s1 = (e1, l2, s2)" by (cases "rotate_l G l s1") auto
  have e1: "e1 = None" using ok u e0 big r
    by (cases e1) (simp_all add: allocateSpace_def Let_def)
  note R = rotate_l_calm [OF f1 r [unfolded e1]]
  then obtain h i where hi:
    "l2 = l\<lparr>file_l := Some h, size_l := 0, writeAt := 0, millCh := Some True\<rparr>"
    "fdtab s2 h = Some i" "map_of (dents s2) (entry G l) = Some (RegFile i)" "idata s2 i = []"
    by blast
  from R have f2: "faults s2 = []" by simp
  let ?mb = "defaultMegaByteSize * megabyte"
  let ?s3 = "s2\<lparr>idata := (idata s2)(i := replicate (nat ?mb) 0)\<rparr>"
  have t: "syscall_Ftruncate s2 (Fd s2 (file_l l2)) (0 + ?mb) = (None, ?s3)"
    using hi f2
    by (simp add: syscall_Ftruncate_def Fd_def inject_calm resize_def const_defs)
  let ?m = "\<lparr>m_addr = next_addr s2, m_len = nat ?mb\<rparr>"
  let ?s4 = "?s3\<lparr>active := (active ?s3)(next_addr s2 \<mapsto> (i, 0, nat ?mb)),
                next_addr := Suc (next_addr s2)\<rparr>"
  have m: "syscall_Mmap ?s3 (Fd ?s3 (file_l l2)) 0 ?mb = (Inr ?m, ?s4)"
    using hi f2 by (simp add: syscall_Mmap_def Fd_def inject_def const_defs)
  have "allocateSpace G l s
          = (None, l2\<lparr>mmapSpace := ?m, writeStartAt := 0, size_l := 0 + ?mb\<rparr>, ?s4)"
    using u e0 big r e1 t m by (simp add: allocateSpace_def Let_def)
  moreover have "backupName G s1 (filename G l) (LocalTime l)
                   = backupName G s (filename G l) (LocalTime l)"
    using U by (simp add: backupName_def)
  ultimately show ?thesis using hi R U by auto
qed

theorem allocateSpace_rotation_witness:
  "faults opened_os = []
   \<and> fst (allocateSpace ex_lib opened_logger opened_os) = None
   \<and> (writeAt opened_logger sdiv pageSize) * pageSize + defaultMegaByteSize * megabyte
        > max_l opened_logger
   \<and> size_l (fst (snd (allocateSpace ex_lib opened_logger opened_os))) = 10485760
   \<and> writeAt (fst (snd (allocateSpace ex_lib opened_logger opened_os))) = 0
   \<and> map_of (dents (snd (snd (allocateSpace ex_lib opened_logger opened_os))))
        ''mmap-2024-05-01T10-00-00.000.log'' = Some (RegFile 0)"
proof -
  have a: "faults opened_os = []" by (simp add: small_defs ex_defs)
  have b: "fst (allocateSpace ex_lib opened_logger opened_os) = None"
    by (simp add: small_defs ex_defs os_defs const_defs writer_defs Let_def)
  have c: "(writeAt opened_logger sdiv pageSize) * pageSize + defaultMegaByteSize * megabyte
        > max_l opened_logger"
    by (simp add: small_defs ex_defs const_defs writer_defs)
  have d: "map_of (dents opened_os) (entry ex_lib opened_logger) = Some (RegFile 0)"
    by (simp add: small_defs ex_defs writer_defs)
  have e: "backupName ex_lib opened_os (filename ex_lib opened_logger) (LocalTime opened_logger)
            = ''mmap-2024-05-01T10-00-00.000.log''"
    by (simp add: small_defs ex_defs writer_defs)
  show ?thesis using allocateSpace_rotation [OF a b c] a b c d e
    by (simp add: const_defs)
qed

subsection \<open>Names of the candidates of a sweep\<close>

lemma HasPrefix_append: "strings_HasPrefix (p @ r) p"
  by (simp add: strings_HasPrefix_def)

lemma HasPrefix_iff: "strings_HasPrefix x p = (\<exists>r. x = p @ r)"
  by (auto simp: strings_HasPrefix_def) (metis append_take_drop_id)

lemma HasSuffix_iff: "strings_HasSuffix x e = (\<exists>r. x = r @ e)"
  by (auto simp: strings_HasSuffix_def) (metis append_take_drop_id)

lemma timeFromName_Done:
  assumes "timeFromName G n p e = Done (Inr t)"
  shows "\<exists>ts. n = p @ ts @ e \<and> time_Parse G ts = Some t"
proof -
  from assms have hp: "strings_HasPrefix n p" and hs: "strings_HasSuffix n e"
    and len: "length p \<le> length n - length e"
    and ts: "time_Parse G (drop (length p) (take (length n - length e) n)) = Some t"
    by (auto simp: timeFromName_def Let_def split: if_splits option.splits)
  from hs obtain r where r: "n = r @ e" by (auto simp: HasSuffix_iff)
  from hp obtain q where q: "n = p @ q" by (auto simp: HasPrefix_iff)
  from r have tk: "take (length n - length e) n = r" by simp
  from len r have lr: "length p \<le> length r" by simp
  from q r lr have "r = p @ drop (length p) r"
    by (metis append_eq_append_conv_if append_take_drop_id)
  with r ts tk show ?thesis by (metis append.assoc)
qed

lemma scanLogFiles_names:
  "scanLogFiles G p e fs = Done r \<Longrightarrow>
     \<forall>f \<in> set r. \<exists>ts. (Name f = p @ ts @ e \<or> Name f = p @ ts @ e @ compressSuffix)
                     \<and> time_Parse G ts = Some (timestamp f)"
proof (induction fs arbitrary: r)
  case Nil
  then show ?case by simp
next
  case (Cons a fs)
  obtain name isDir where a: "a = (name, isDir)" by (cases a)
  show ?case
  proof (cases isDir)
    case True
    with Cons a show ?thesis by simp
  next
    case False
    show ?thesis
    proof (cases "timeFromName G name p e")
      case Panic
      with Cons.prems a False show ?thesis by simp
    next
      case (Done x)
      show ?thesis
      proof (cases x)
        case (Inr t)
        with Cons.prems a False Done obtain r' where r': "scanLogFiles G p e fs = Done r'"
          "r = \<lparr>timestamp = t, Name = name\<rparr> # r'"
          by (auto split: outcome.splits)
        from timeFromName_Done [OF Done [unfolded Inr]] Cons.IH [OF r'(1)] r'(2)
        show ?thesis by auto
      next
        case (Inl err)
        show ?thesis
        proof (cases "timeFromName G name p (e @ compressSuffix)")
          case Panic
          with Cons.prems a False Done Inl show ?thesis by simp
        next
          case D2: (Done y)
          show ?thesis
          proof (cases y)
            case I2: (Inr t)
            with Cons.prems a False Done Inl D2 obtain r' where
              r': "scanLogFiles G p e fs = Done r'" "r = \<lparr>timestamp = t, Name = name\<rparr> # r'"
              by (auto split: outcome.splits)
            from timeFromName_Done [OF D2 [unfolded I2]] Cons.IH [OF r'(1)] r'(2)
            show ?thesis by auto
          next
            case I3: (Inl err2)
            with Cons a False Done Inl D2 show ?thesis by simp
          qed
        qed
      qed
    qed
  qed
qed

lemma prefixAndExt_entry:
  "fst (prefixAndExt G l) = take (length (entry G l) - length (filepath_Ext (entry G l))) (entry G l) @ ''-''
   \<and> snd (prefixAndExt G l) = filepath_Ext (entry G l)"
  by (simp add: prefixAndExt_def entry_def Let_def)

lemma entry_not_prefixed: "entry G l \<noteq> fst (prefixAndExt G l) @ r"
proof
  let ?b = "entry G l"
  let ?stem = "take (length ?b - length (filepath_Ext ?b)) ?b"
  assume "?b = fst (prefixAndExt G l) @ r"
  then have "?stem @ filepath_Ext ?b = (?stem @ ''-'') @ r"
    by (simp only: filepath_Ext_split prefixAndExt_entry)
  then have eq: "filepath_Ext ?b = CHR ''-'' # r" by simp
  show False using filepath_Ext_shape [of ?b] eq by auto
qed

lemma keepBackups_Cons:
  "keepBackups m P (f # fs) =
     (if int (card (insert (backupStem f) P)) > m
      then (f # fst (keepBackups m (insert (backupStem f) P) fs),
            snd (keepBackups m (insert (backupStem f) P) fs))
      else (fst (keepBackups m (insert (backupStem f) P) fs),
            f # snd (keepBackups m (insert (backupStem f) P) fs)))"
  by (simp add: Let_def split_beta)

lemma keepBackups_set:
  "set (fst (keepBackups m P fs)) \<union> set (snd (keepBackups m P fs)) = set fs"
proof (induction fs arbitrary: P)
  case Nil
  then show ?case by simp
next
  case (Cons f fs)
  show ?case
    unfolding keepBackups_Cons using Cons.IH [of "insert (backupStem f) P"] by auto
qed

lemma mill_select_subset:
  "set (fst (mill_select l t files)) \<union> set (snd (mill_select l t files)) \<subseteq> set files"
  using keepBackups_set [of "MaxBackups l" "{}" files]
  by (auto simp: mill_select_def Let_def split_beta split: if_splits)

lemma oldLogFiles_names:
  assumes "oldLogFiles G l s = (Done (Inr files), s1)"
  shows "\<forall>f \<in> set files. \<exists>ts.
           (Name f = fst (prefixAndExt G l) @ ts @ snd (prefixAndExt G l)
            \<or> Name f = fst (prefixAndExt G l) @ ts @ snd (prefixAndExt G l) @ compressSuffix)
           \<and> time_Parse G ts = Some (timestamp f)"
proof -
  obtain p e where pe: "prefixAndExt G l = (p, e)" by (cases "prefixAndExt G l") auto
  from assms obtain ents r where
    "scanLogFiles G p e ents = Done r" and "files = byFormatTime_sort r"
    by (auto simp: oldLogFiles_def pe split: prod.splits sum.splits outcome.splits)
  with scanLogFiles_names [of G p e ents r] show ?thesis
    by (simp add: pe byFormatTime_sort_def)
qed

subsection \<open>Directory entries a call leaves alone\<close>

lemma inject_dents: "inject s = (b, s') \<Longrightarrow> dents s' = dents s"
  by (auto simp: inject_def split: list.splits)

lemma inject_snd:
  "dents (snd (inject s)) = dents s" "idata (snd (inject s)) = idata s"
  "fdtab (snd (inject s)) = fdtab s" "next_ino (snd (inject s)) = next_ino s"
  "next_fd (snd (inject s)) = next_fd s"
  by (simp_all add: inject_def split: list.splits)

lemma os_Open_dents: "os_Open s n = (r, s') \<Longrightarrow> dents s' = dents s"
  by (auto simp: os_Open_def Let_def dest!: inject_dents
        split: prod.splits if_splits option.splits dentry.splits)

lemma os_Stat_dents: "os_Stat s n = (r, s') \<Longrightarrow> dents s' = dents s"
  by (auto simp: os_Stat_def Let_def dest!: inject_dents
        split: prod.splits if_splits option.splits)

lemma file_Close_dents: "file_Close s f = (r, s') \<Longrightarrow> dents s' = dents s"
  by (auto simp: file_Close_def Let_def dest!: inject_dents
        split: prod.splits if_splits option.splits)

lemma os_Chown_dents: "os_Chown s n = (r, s') \<Longrightarrow> dents s' = dents s"
  by (auto simp: os_Chown_def Let_def dest!: inject_dents
        split: prod.splits if_splits option.splits)

lemma file_Write_dents: "file_Write s h pos bs = (r, s') \<Longrightarrow> dents s' = dents s"
  by (auto simp: file_Write_def Let_def dest!: inject_dents
        split: prod.splits if_splits option.splits)

lemma file_ReadAll_dents: "file_ReadAll s h = (r, s') \<Longrightarrow> dents s' = dents s"
  by (auto simp: file_ReadAll_def Let_def dest!: inject_dents
        split: prod.splits if_splits option.splits)

lemma ioutil_ReadDir_dents: "ioutil_ReadDir s = (r, s') \<Longrightarrow> dents s' = dents s"
  by (auto simp: ioutil_ReadDir_def Let_def dest!: inject_dents
        split: prod.splits if_splits)

lemma os_OpenFile_entry:
  "os_OpenFile s n = (r, s') \<Longrightarrow> a \<noteq> n \<Longrightarrow> map_of (dents s') a = map_of (dents s) a"
  by (auto simp: os_OpenFile_def Let_def update_conv' dest!: inject_dents
        split: prod.splits if_splits option.splits dentry.splits)

lemma os_Remove_entry:
  "os_Remove s n = (r, s') \<Longrightarrow> a \<noteq> n \<Longrightarrow> map_of (dents s') a = map_of (dents s) a"
  by (auto simp: os_Remove_def Let_def delete_conv' dest!: inject_dents
        split: prod.splits if_splits option.splits)

lemma chown_entry:
  assumes "chown s n info = (r, s')" and "a \<noteq> n"
  shows "map_of (dents s') a = map_of (dents s) a"
proof -
  obtain r1 s1 where o: "os_OpenFile s n = (r1, s1)" by (cases "os_OpenFile s n") auto
  note e1 = os_OpenFile_entry [OF o assms(2)]
  show ?thesis
  proof (cases r1)
    case (Inl e)
    with assms o e1 show ?thesis by (simp add: chown_def)
  next
    case (Inr f)
    obtain r2 s2 where c: "file_Close s1 (Some f) = (r2, s2)"
      by (cases "file_Close s1 (Some f)") auto
    from assms o Inr c have "os_Chown s2 n = (r, s')" by (simp add: chown_def)
    from os_Chown_dents [OF this] file_Close_dents [OF c] e1 show ?thesis by simp
  qed
qed

lemma os_Remove_entry_snd:
  "a \<noteq> n \<Longrightarrow> map_of (dents (snd (os_Remove s n))) a = map_of (dents s) a"
  using os_Remove_entry [of s n "fst (os_Remove s n)" "snd (os_Remove s n)" a] by simp

lemma file_Close_dents_snd: "dents (snd (file_Close s f)) = dents s"
  using file_Close_dents [of s f "fst (file_Close s f)" "snd (file_Close s f)"] by simp

lemma compress_stream_entry:
  assumes "compress_stream G s src f gzf = (r, s')" and "a \<noteq> src"
  shows "map_of (dents s') a = map_of (dents s) a"
  using assms
  by (auto simp: compress_stream_def
        split: prod.splits sum.splits option.splits
        dest!: file_ReadAll_dents file_Write_dents file_Close_dents
        dest: os_Remove_entry)

lemma compressLogFile_entry:
  assumes c: "compressLogFile G s src dst = (r, s')" and a: "a \<noteq> src" "a \<noteq> dst"
  shows "map_of (dents s') a = map_of (dents s) a"
proof -
  obtain r1 s1 where o: "os_Open s src = (r1, s1)" by (cases "os_Open s src") auto
  note d1 = os_Open_dents [OF o]
  show ?thesis
  proof (cases r1)
    case (Inl e)
    with c o d1 show ?thesis by (simp add: compressLogFile_def)
  next
    case (Inr f)
    obtain r2 s2 where st: "os_Stat s1 src = (r2, s2)" by (cases "os_Stat s1 src") auto
    note d2 = os_Stat_dents [OF st]
    show ?thesis
    proof (cases r2)
      case (Inl e)
      with c o Inr st have "s' = snd (file_Close s2 (Some f))"
        by (simp add: compressLogFile_def split_beta)
      with d1 d2 show ?thesis
        by (simp add: file_Close_dents_snd)
    next
      case fi: (Inr info)
      obtain r3 s3 where ch: "chown s2 dst info = (r3, s3)" by (cases "chown s2 dst info") auto
      note d3 = chown_entry [OF ch a(2)]
      show ?thesis
      proof (cases r3)
        case (Some e)
        with c o Inr st fi ch have "s' = snd (file_Close s3 (Some f))"
          by (simp add: compressLogFile_def split_beta)
        with d1 d2 d3 show ?thesis
          by (simp add: file_Close_dents_snd)
      next
        case None
        obtain r4 s4 where op: "os_OpenFile s3 dst = (r4, s4)"
          by (cases "os_OpenFile s3 dst") auto
        note d4 = os_OpenFile_entry [OF op a(2)]
        show ?thesis
        proof (cases r4)
          case (Inl e)
          with c o Inr st fi ch None op have "s' = snd (file_Close s4 (Some f))"
            by (simp add: compressLogFile_def split_beta)
          with d1 d2 d3 d4 show ?thesis
            by (simp add: file_Close_dents_snd)
        next
          case gz: (Inr gzf)
          obtain r5 s5 where cs: "compress_stream G s4 src f gzf = (r5, s5)"
            by (cases "compress_stream G s4 src f gzf") auto
          note d5 = compress_stream_entry [OF cs a(1)]
          obtain s6 where s6: "s6 = (case r5 of None \<Rightarrow> s5 | Some e \<Rightarrow> snd (os_Remove s5 dst))"
            by simp
          have d6: "map_of (dents s6) a = map_of (dents s5) a"
            using s6 a(2) by (cases r5) (simp_all add: os_Remove_entry_snd)
          have "s' = snd (file_Close (snd (file_Close s6 (Some gzf))) (Some f))"
            using c o Inr st fi ch None op gz cs s6
            by (cases r5) (simp_all add: compressLogFile_def split_beta)
          moreover have "dents (snd (file_Close (snd (file_Close s6 (Some gzf))) (Some f))) = dents s6"
            by (simp add: file_Close_dents_snd)
          ultimately show ?thesis using d1 d2 d3 d4 d5 d6 by simp
        qed
      qed
    qed
  qed
qed

subsection \<open>The sweep on the example directory\<close>

lemma sweep_ReadDir:
  "ioutil_ReadDir sweep_os =
     (Inr [(''mmap-2024-03-01T10-00-00.000.log'', False),
           (''mmap-2024-04-01T10-00-00.000.log'', False),
           (''mmap-2024-04-01T10-00-00.000.log.gz'', False),
           (''mmap-2024-05-01T10-00-00.000.log'', False),
           (''mmap.log'', False),
           (''other.txt'', False)], sweep_os)"
  by (simp add: ioutil_ReadDir_def inject_def sweep_defs ex_defs)

lemma sweep_prefixAndExt: "prefixAndExt ex_lib sweep_logger = (''mmap-'', ''.log'')"
  by (simp add: prefixAndExt_def sweep_defs writer_defs)

lemma sweep_timeFromName:
  "timeFromName ex_lib ''mmap-2024-03-01T10-00-00.000.log'' ''mmap-'' ''.log'' = Done (Inr 1)"
  "timeFromName ex_lib ''mmap-2024-04-01T10-00-00.000.log'' ''mmap-'' ''.log'' = Done (Inr 2)"
  "timeFromName ex_lib ''mmap-2024-04-01T10-00-00.000.log.gz'' ''mmap-'' ''.log''
     = Done (Inl (ErrorString ''mismatched extension''))"
  "timeFromName ex_lib ''mmap-2024-04-01T10-00-00.000.log.gz'' ''mmap-'' ''.log.gz''
     = Done (Inr 2)"
  "timeFromName ex_lib ''mmap-2024-05-01T10-00-00.000.log'' ''mmap-'' ''.log'' = Done (Inr 3)"
  "timeFromName ex_lib ''mmap.log'' ''mmap-'' ''.log''
     = Done (Inl (ErrorString ''mismatched prefix''))"
  "timeFromName ex_lib ''mmap.log'' ''mmap-'' ''.log.gz''
     = Done (Inl (ErrorString ''mismatched prefix''))"
  "timeFromName ex_lib ''other.txt'' ''mmap-'' ''.log''
     = Done (Inl (ErrorString ''mismatched prefix''))"
  "timeFromName ex_lib ''other.txt'' ''mmap-'' ''.log.gz''
     = Done (Inl (ErrorString ''mismatched prefix''))"
  by (simp_all add: timeFromName_def strings_HasPrefix_def strings_HasSuffix_def
        compressSuffix_def ex_lib_def)

lemma sweep_oldLogFiles:
  "oldLogFiles ex_lib sweep_logger sweep_os = (Done (Inr sweep_files), sweep_os)"
  by (simp add: oldLogFiles_def sweep_ReadDir sweep_prefixAndExt sweep_timeFromName
        compressSuffix_def byFormatTime_sort_def sweep_files_def)

subsection \<open>The active file and the sweep\<close>

lemma remove_all_Cons:
  "remove_all s (f # fs) err =
     remove_all (snd (os_Remove s (Name f))) fs
       (if err = None \<and> fst (os_Remove s (Name f)) \<noteq> None
        then map_option Sys (fst (os_Remove s (Name f))) else err)"
  by (simp add: split_beta)

lemma remove_all_entry:
  "\<forall>f \<in> set fs. Name f \<noteq> a \<Longrightarrow>
     map_of (dents (snd (remove_all s fs err))) a = map_of (dents s) a"
proof (induction fs arbitrary: s err)
  case Nil
  then show ?case by simp
next
  case (Cons f fs)
  then have "a \<noteq> Name f" and rest: "\<forall>f \<in> set fs. Name f \<noteq> a" by auto
  then show ?case
    unfolding remove_all_Cons by (simp add: Cons.IH [OF rest] os_Remove_entry_snd)
qed

lemma compress_all_Cons:
  "compress_all G s (f # fs) err =
     compress_all G (snd (compressLogFile G s (Name f) (Name f @ compressSuffix))) fs
       (if err = None \<and> fst (compressLogFile G s (Name f) (Name f @ compressSuffix)) \<noteq> None
        then fst (compressLogFile G s (Name f) (Name f @ compressSuffix)) else err)"
  by (simp add: split_beta Let_def)

lemma compressLogFile_entry_snd:
  "a \<noteq> src \<Longrightarrow> a \<noteq> dst \<Longrightarrow>
     map_of (dents (snd (compressLogFile G s src dst))) a = map_of (dents s) a"
  using compressLogFile_entry [of G s src dst "fst (compressLogFile G s src dst)"
      "snd (compressLogFile G s src dst)" a] by simp

lemma compress_all_entry:
  "\<forall>f \<in> set fs. Name f \<noteq> a \<and> Name f @ compressSuffix \<noteq> a \<Longrightarrow>
     map_of (dents (snd (compress_all G s fs err))) a = map_of (dents s) a"
proof (induction fs arbitrary: s err)
  case Nil
  then show ?case by simp
next
  case (Cons f fs)
  then have "a \<noteq> Name f" "a \<noteq> Name f @ compressSuffix"
    and rest: "\<forall>f \<in> set fs. Name f \<noteq> a \<and> Name f @ compressSuffix \<noteq> a" by auto
  then show ?case
    unfolding compress_all_Cons by (simp add: Cons.IH [OF rest] compressLogFile_entry_snd)
qed

lemma ioutil_ReadDir_dents_snd: "dents (snd (ioutil_ReadDir s)) = dents s"
  using ioutil_ReadDir_dents [of s "fst (ioutil_ReadDir s)" "snd (ioutil_ReadDir s)"] by simp

lemma oldLogFiles_dents: "oldLogFiles G l s = (r, s1) \<Longrightarrow> dents s1 = dents s"
  by (auto simp: oldLogFiles_def split_beta ioutil_ReadDir_dents_snd
        split: prod.splits sum.splits outcome.splits)

lemma candidate_not_entry:
  assumes "oldLogFiles G l s = (Done (Inr files), s1)" and "f \<in> set files"
  shows "Name f \<noteq> entry G l \<and> Name f @ compressSuffix \<noteq> entry G l"
proof -
  from oldLogFiles_names [OF assms(1)] assms(2) obtain ts where
    "Name f = fst (prefixAndExt G l) @ ts @ snd (prefixAndExt G l)
     \<or> Name f = fst (prefixAndExt G l) @ ts @ snd (prefixAndExt G l) @ compressSuffix"
    by blast
  then obtain r where r: "Name f = fst (prefixAndExt G l) @ r" by auto
  then have "Name f @ compressSuffix = fst (prefixAndExt G l) @ (r @ compressSuffix)" by simp
  with r show ?thesis using entry_not_prefixed [of G l] by metis
qed

lemma millRunOnce_entry:
  "map_of (dents (snd (millRunOnce G l s))) (entry G l) = map_of (dents s) (entry G l)"
proof (cases "MaxBackups l = 0 \<and> MaxAge l = 0 \<and> \<not> Compress l")
  case True
  then show ?thesis by (simp add: millRunOnce_def)
next
  case False
  obtain r s1 where o: "oldLogFiles G l s = (r, s1)" by (cases "oldLogFiles G l s") auto
  note d = oldLogFiles_dents [OF o]
  show ?thesis
  proof (cases r)
    case Panic
    with o d show ?thesis by (simp only: millRunOnce_def if_not_P [OF False]) simp
  next
    case (Done x)
    show ?thesis
    proof (cases x)
      case (Inl e)
      with o d Done show ?thesis
        by (simp only: millRunOnce_def if_not_P [OF False]) simp
    next
      case (Inr files)
      let ?sel = "mill_select l (now s1) files"
      have ok: "\<forall>f \<in> set (fst ?sel) \<union> set (snd ?sel).
                  Name f \<noteq> entry G l \<and> Name f @ compressSuffix \<noteq> entry G l"
        using candidate_not_entry [OF o [unfolded Done Inr]] mill_select_subset [of l "now s1" files]
        by blast
      have "snd (millRunOnce G l s)
              = snd (compress_all G (snd (remove_all s1 (fst ?sel) None)) (snd ?sel)
                       (fst (remove_all s1 (fst ?sel) None)))"
        using o Done Inr
        by (simp only: millRunOnce_def if_not_P [OF False]) (simp add: split_beta)
      then show ?thesis using ok d by (simp add: compress_all_entry remove_all_entry)
    qed
  qed
qed

text \<open>
  Claim C10: the active log file is never a candidate of a sweep. Every file that
  \<open>oldLogFiles\<close> returns is named by the stem of the log file, a dash, a string that
  parses as a backup time stamp, and the extension, with or without the compressed
  suffix; the name of the active file is not of this form. So the lists of files to
  remove and to compress never hold the active file, no compression writes to it, and
  after a whole run of \<open>millRunOnce\<close>, whatever fails in it, the directory entry of
  the active file is the one it was.
\<close>

theorem active_file_not_swept:
  assumes "oldLogFiles G l s = (Done (Inr files), s1)"
  shows "(\<forall>f \<in> set files.
            Name f \<noteq> entry G l
            \<and> (\<exists>ts. (Name f = take (length (entry G l) - length (filepath_Ext (entry G l))) (entry G l)
                            @ ''-'' @ ts @ filepath_Ext (entry G l)
                      \<or> Name f = take (length (entry G l) - length (filepath_Ext (entry G l))) (entry G l)
                            @ ''-'' @ ts @ filepath_Ext (entry G l) @ compressSuffix)
                     \<and> time_Parse G ts = Some (timestamp f)))
     \<and> (\<forall>f \<in> set (fst (mill_select l t files)) \<union> set (snd (mill_select l t files)).
            Name f \<noteq> entry G l \<and> Name f @ compressSuffix \<noteq> entry G l)
     \<and> map_of (dents (snd (millRunOnce G l s))) (entry G l) = map_of (dents s) (entry G l)"
proof -
  have a: "\<forall>f \<in> set files. Name f \<noteq> entry G l"
    using candidate_not_entry [OF assms] by blast
  have b: "\<forall>f \<in> set files. \<exists>ts.
            (Name f = take (length (entry G l) - length (filepath_Ext (entry G l))) (entry G l)
                            @ ''-'' @ ts @ filepath_Ext (entry G l)
             \<or> Name f = take (length (entry G l) - length (filepath_Ext (entry G l))) (entry G l)
                            @ ''-'' @ ts @ filepath_Ext (entry G l) @ compressSuffix)
            \<and> time_Parse G ts = Some (timestamp f)"
    using oldLogFiles_names [OF assms] by (simp add: prefixAndExt_entry)
  have c: "\<forall>f \<in> set (fst (mill_select l t files)) \<union> set (snd (mill_select l t files)).
            Name f \<noteq> entry G l \<and> Name f @ compressSuffix \<noteq> entry G l"
    using candidate_not_entry [OF assms] mill_select_subset [of l t files] by blast
  from a b c millRunOnce_entry [of G l s] show ?thesis by blast
qed

theorem active_file_not_swept_witness:
  "oldLogFiles ex_lib sweep_logger sweep_os = (Done (Inr sweep_files), sweep_os)
   \<and> entry ex_lib sweep_logger = ''mmap.log''
   \<and> ''mmap.log'' \<notin> Name ` set sweep_files
   \<and> map_of (dents (snd (millRunOnce ex_lib sweep_logger sweep_os))) ''mmap.log''
       = Some (RegFile 0)"
proof -
  have e: "entry ex_lib sweep_logger = ''mmap.log''"
    by (simp add: sweep_defs ex_defs writer_defs)
  have m: "map_of (dents sweep_os) ''mmap.log'' = Some (RegFile 0)"
    by (simp add: sweep_defs ex_defs)
  note T = active_file_not_swept [OF sweep_oldLogFiles, of 0]
  from T have "\<forall>f \<in> set sweep_files. Name f \<noteq> entry ex_lib sweep_logger" by blast
  then have a: "''mmap.log'' \<notin> Name ` set sweep_files" unfolding e by auto
  from T have "map_of (dents (snd (millRunOnce ex_lib sweep_logger sweep_os)))
                 (entry ex_lib sweep_logger)
               = map_of (dents sweep_os) (entry ex_lib sweep_logger)" by blast
  then have b: "map_of (dents (snd (millRunOnce ex_lib sweep_logger sweep_os))) ''mmap.log''
                  = Some (RegFile 0)" unfolding e m .
  from sweep_oldLogFiles e a b show ?thesis by blast
qed

subsection \<open>The backup-count policy\<close>




















subsection \<open>Compressing a backup\<close>

lemma file_ReadAll_effect:
  assumes "file_ReadAll s h = (r, s')" and "fdtab s h = Some i"
  shows "dents s' = dents s \<and> idata s' = idata s \<and> fdtab s' = fdtab s
     \<and> (\<forall>d. r = Inr d \<longrightarrow> d = idata s i)"
  using assms by (auto simp: file_ReadAll_def split_beta inject_snd split: if_splits)

lemma file_Write_effect:
  assumes "file_Write s h pos bs = (r, s')" and "fdtab s h = Some j"
  shows "dents s' = dents s \<and> fdtab s' = fdtab s
     \<and> (\<forall>k. k \<noteq> j \<longrightarrow> idata s' k = idata s k)
     \<and> (r = None \<longrightarrow>
           idata s' j = resize pos (idata s j) @ bs @ drop (pos + length bs) (idata s j))"
  using assms by (auto simp: file_Write_def split_beta inject_snd split: if_splits)

lemma file_Close_effect:
  assumes "file_Close s f = (r, s')"
  shows "dents s' = dents s \<and> idata s' = idata s
     \<and> next_ino s' = next_ino s \<and> next_fd s' = next_fd s
     \<and> (\<forall>h. f \<noteq> Some h \<longrightarrow> fdtab s' h = fdtab s h)"
  using assms
  by (auto simp: file_Close_def split_beta inject_snd split: if_splits option.splits)

lemma os_Remove_effect:
  assumes "os_Remove s n = (r, s')"
  shows "idata s' = idata s \<and> fdtab s' = fdtab s
     \<and> (\<forall>a. a \<noteq> n \<longrightarrow> map_of (dents s') a = map_of (dents s) a)
     \<and> (r \<noteq> None \<longrightarrow> dents s' = dents s)
     \<and> (r = None \<longrightarrow> map_of (dents s') n = None)"
  using assms
  by (auto simp: os_Remove_def split_beta inject_snd delete_conv' split: if_splits option.splits)

lemma compress_stream_facts:
  assumes c: "compress_stream G s src f gzf = (r, s')"
    and f: "fdtab s f = Some i" and g: "fdtab s gzf = Some j" and ne: "i \<noteq> j"
  shows "idata s' i = idata s i
     \<and> (\<forall>a. a \<noteq> src \<longrightarrow> map_of (dents s') a = map_of (dents s) a)
     \<and> (r \<noteq> None \<longrightarrow> dents s' = dents s)
     \<and> (r = None \<longrightarrow> map_of (dents s') src = None
           \<and> take (length (gzip_Write G (idata s i) @ gzip_Close G (idata s i))) (idata s' j)
               = gzip_Write G (idata s i) @ gzip_Close G (idata s i))"
proof -
  let ?d = "idata s i"
  obtain r1 s1 where a1: "file_ReadAll s f = (r1, s1)" by (cases "file_ReadAll s f") auto
  note e1 = file_ReadAll_effect [OF a1 f]
  show ?thesis
  proof (cases r1)
    case (Inl e)
    with c a1 have "r = Some e" "s' = s1" by (simp_all add: compress_stream_def)
    with e1 show ?thesis by simp
  next
    case (Inr d)
    with e1 have d: "d = ?d" by simp
    have g1: "fdtab s1 gzf = Some j" using e1 g by simp
    obtain r2 s2 where a2: "file_Write s1 gzf 0 (gzip_Write G ?d) = (r2, s2)"
      by (cases "file_Write s1 gzf 0 (gzip_Write G ?d)") auto
    note e2 = file_Write_effect [OF a2 g1]
    show ?thesis
    proof (cases r2)
      case (Some e)
      with c a1 Inr d a2 have "r = Some e" "s' = s2" by (simp_all add: compress_stream_def)
      with e1 e2 ne show ?thesis by simp
    next
      case w1: None
      have g2: "fdtab s2 gzf = Some j" using e2 g1 by simp
      obtain r3 s3 where
        a3: "file_Write s2 gzf (length (gzip_Write G ?d)) (gzip_Close G ?d) = (r3, s3)"
        by (cases "file_Write s2 gzf (length (gzip_Write G ?d)) (gzip_Close G ?d)") auto
      note e3 = file_Write_effect [OF a3 g2]
      show ?thesis
      proof (cases r3)
        case (Some e)
        with c a1 Inr d a2 w1 a3 have "r = Some e" "s' = s3"
          by (simp_all add: compress_stream_def)
        with e1 e2 e3 ne show ?thesis by simp
      next
        case w2: None
        have "idata s2 j = gzip_Write G ?d @ drop (length (gzip_Write G ?d)) (idata s1 j)"
          using e2 w1 by (simp add: resize_def)
        then have z: "take (length (gzip_Write G ?d @ gzip_Close G ?d)) (idata s3 j)
                        = gzip_Write G ?d @ gzip_Close G ?d"
          using e3 w2 by (simp add: resize_def)
        obtain r4 s4 where a4: "file_Close s3 (Some gzf) = (r4, s4)"
          by (cases "file_Close s3 (Some gzf)") auto
        note e4 = file_Close_effect [OF a4]
        show ?thesis
        proof (cases r4)
          case (Some e)
          with c a1 Inr d a2 w1 a3 w2 a4 have "r = Some e" "s' = s4"
            by (simp_all add: compress_stream_def)
          with e1 e2 e3 e4 ne show ?thesis by simp
        next
          case c1: None
          obtain r5 s5 where a5: "file_Close s4 (Some f) = (r5, s5)"
            by (cases "file_Close s4 (Some f)") auto
          note e5 = file_Close_effect [OF a5]
          show ?thesis
          proof (cases r5)
            case (Some e)
            with c a1 Inr d a2 w1 a3 w2 a4 c1 a5 have "r = Some e" "s' = s5"
              by (simp_all add: compress_stream_def)
            with e1 e2 e3 e4 e5 ne show ?thesis by simp
          next
            case c2: None
            with c a1 Inr d a2 w1 a3 w2 a4 c1 a5 have a6: "os_Remove s5 src = (r, s')"
              by (simp add: compress_stream_def)
            note e6 = os_Remove_effect [OF a6]
            have "idata s' = idata s3" "dents s5 = dents s" using e1 e2 e3 e4 e5 e6 by simp_all
            with z e1 e2 e3 e6 ne show ?thesis by simp
          qed
        qed
      qed
    qed
  qed
qed

lemmas compress_defs = compressLogFile_def compress_stream_def chown_def os_Open_def os_Stat_def
  os_OpenFile_def file_Close_def os_Chown_def file_ReadAll_def file_Write_def os_Remove_def
  inject_def update_conv' delete_conv' Let_def

lemma os_Open_effect:
  assumes "os_Open s n = (r, s')"
  shows "dents s' = dents s \<and> idata s' = idata s \<and> next_ino s' = next_ino s
     \<and> next_fd s \<le> next_fd s'
     \<and> (\<forall>g. r = Inr g \<longrightarrow> g < next_fd s'
            \<and> (\<exists>k. map_of (dents s) n = Some (RegFile k) \<and> fdtab s' g = Some k))"
  using assms
  by (auto simp: os_Open_def split_beta inject_snd
        split: if_splits option.splits dentry.splits)

lemma os_Stat_effect:
  assumes "os_Stat s n = (r, s')"
  shows "dents s' = dents s \<and> idata s' = idata s \<and> fdtab s' = fdtab s
     \<and> next_ino s' = next_ino s \<and> next_fd s' = next_fd s"
  using assms by (auto simp: os_Stat_def split_beta inject_snd split: if_splits option.splits)

lemma os_Chown_effect:
  assumes "os_Chown s n = (r, s')"
  shows "dents s' = dents s \<and> idata s' = idata s \<and> fdtab s' = fdtab s
     \<and> next_ino s' = next_ino s \<and> next_fd s' = next_fd s"
  using assms by (auto simp: os_Chown_def split_beta inject_snd split: if_splits option.splits)

lemma os_OpenFile_effect:
  assumes "os_OpenFile s n = (r, s')"
  shows "(\<forall>a. a \<noteq> n \<longrightarrow> map_of (dents s') a = map_of (dents s) a)
     \<and> (\<forall>k. k < next_ino s \<longrightarrow> idata s' k = idata s k)
     \<and> next_ino s \<le> next_ino s'
     \<and> (\<forall>h. h < next_fd s \<longrightarrow> fdtab s' h = fdtab s h)
     \<and> next_fd s \<le> next_fd s'
     \<and> (\<forall>g. r = Inr g \<longrightarrow> g = next_fd s \<and> g < next_fd s'
            \<and> (\<exists>j. fdtab s' g = Some j \<and> map_of (dents s') n = Some (RegFile j)
                  \<and> (map_of (dents s) n = Some (RegFile j) \<or> next_ino s \<le> j)))"
  using assms
  by (auto simp: os_OpenFile_def split_beta inject_snd update_conv'
        split: if_splits option.splits dentry.splits)

lemma chown_effect:
  assumes c: "chown s n info = (r, s')"
  shows "(\<forall>a. a \<noteq> n \<longrightarrow> map_of (dents s') a = map_of (dents s) a)
     \<and> (\<forall>k. k < next_ino s \<longrightarrow> idata s' k = idata s k)
     \<and> next_ino s \<le> next_ino s'
     \<and> (\<forall>h. h < next_fd s \<longrightarrow> fdtab s' h = fdtab s h)
     \<and> next_fd s \<le> next_fd s'
     \<and> (r = None \<longrightarrow> (\<exists>j. map_of (dents s') n = Some (RegFile j)
                  \<and> (map_of (dents s) n = Some (RegFile j) \<or> next_ino s \<le> j)))"
proof -
  obtain r1 s1 where o: "os_OpenFile s n = (r1, s1)" by (cases "os_OpenFile s n") auto
  note e1 = os_OpenFile_effect [OF o]
  show ?thesis
  proof (cases r1)
    case (Inl e)
    with c o have "r = Some e" "s' = s1" by (simp_all add: chown_def)
    with e1 show ?thesis by simp
  next
    case (Inr g)
    obtain r2 s2 where cl: "file_Close s1 (Some g) = (r2, s2)"
      by (cases "file_Close s1 (Some g)") auto
    note e2 = file_Close_effect [OF cl]
    from c o Inr cl have ch: "os_Chown s2 n = (r, s')" by (simp add: chown_def)
    note e3 = os_Chown_effect [OF ch]
    from e1 Inr have g: "g = next_fd s" by simp
    have fd: "\<forall>h. h < next_fd s \<longrightarrow> fdtab s' h = fdtab s h"
      using e1 e2 e3 g by simp
    from e1 Inr obtain j where j: "map_of (dents s1) n = Some (RegFile j)"
      "map_of (dents s) n = Some (RegFile j) \<or> next_ino s \<le> j" by blast
    then have "\<exists>j. map_of (dents s') n = Some (RegFile j)
                  \<and> (map_of (dents s) n = Some (RegFile j) \<or> next_ino s \<le> j)"
      using e2 e3 by auto
    with fd e1 e2 e3 show ?thesis by simp
  qed
qed

lemma file_Close_snd:
  "dents (snd (file_Close s f)) = dents s" "idata (snd (file_Close s f)) = idata s"
  using file_Close_effect [of s f "fst (file_Close s f)" "snd (file_Close s f)"] by simp_all

lemma os_Remove_snd:
  "idata (snd (os_Remove s n)) = idata s"
  "a \<noteq> n \<Longrightarrow> map_of (dents (snd (os_Remove s n))) a = map_of (dents s) a"
  using os_Remove_effect [of s n "fst (os_Remove s n)" "snd (os_Remove s n)"] by simp_all

lemma compressLogFile_facts:
  assumes c: "compressLogFile G s src dst = (r, s')"
    and sd: "src \<noteq> dst"
    and si: "map_of (dents s) src = Some (RegFile i)"
    and fresh: "i < next_ino s"
    and nolink: "map_of (dents s) dst \<noteq> Some (RegFile i)"
  shows "idata s' i = idata s i
     \<and> (r \<noteq> None \<longrightarrow> map_of (dents s') src = Some (RegFile i))
     \<and> (r = None \<longrightarrow> map_of (dents s') src = None
           \<and> (\<exists>j. map_of (dents s') dst = Some (RegFile j)
                 \<and> take (length (gzip_Write G (idata s i) @ gzip_Close G (idata s i)))
                      (idata s' j)
                     = gzip_Write G (idata s i) @ gzip_Close G (idata s i)))"
proof -
  obtain r1 s1 where o: "os_Open s src = (r1, s1)" by (cases "os_Open s src") auto
  note e1 = os_Open_effect [OF o]
  show ?thesis
  proof (cases r1)
    case (Inl e)
    with c o have "r = Some (Wrapped ''failed to open log file'' e)" "s' = s1"
      by (simp_all add: compressLogFile_def)
    with e1 si show ?thesis by simp
  next
    case (Inr f)
    with e1 si have f: "f < next_fd s1" "fdtab s1 f = Some i" by auto
    obtain r2 s2 where st: "os_Stat s1 src = (r2, s2)" by (cases "os_Stat s1 src") auto
    note e2 = os_Stat_effect [OF st]
    show ?thesis
    proof (cases r2)
      case (Inl e)
      with c o Inr st have "r = Some (Wrapped ''failed to stat log file'' e)"
        "s' = snd (file_Close s2 (Some f))"
        by (simp_all add: compressLogFile_def split_beta)
      with e1 e2 si show ?thesis by (simp add: file_Close_snd)
    next
      case fi: (Inr info)
      obtain r3 s3 where ch: "chown s2 dst info = (r3, s3)" by (cases "chown s2 dst info") auto
      note e3 = chown_effect [OF ch]
      have i2: "i < next_ino s2" "f < next_fd s2" using e1 e2 fresh f by simp_all
      have k3: "map_of (dents s3) src = Some (RegFile i)" "idata s3 i = idata s i"
        "fdtab s3 f = Some i" "i < next_ino s3" "f < next_fd s3"
        using e1 e2 e3 i2 sd si f by auto
      show ?thesis
      proof (cases r3)
        case (Some e)
        with c o Inr st fi ch have
          "r = Some (Wrapped ''failed to chown compressed log file'' e)"
          "s' = snd (file_Close s3 (Some f))"
          by (simp_all add: compressLogFile_def split_beta)
        with k3 show ?thesis by (simp add: file_Close_snd)
      next
        case None
        with e3 obtain j0 where j0: "map_of (dents s3) dst = Some (RegFile j0)"
          "map_of (dents s2) dst = Some (RegFile j0) \<or> next_ino s2 \<le> j0" by blast
        obtain r4 s4 where op: "os_OpenFile s3 dst = (r4, s4)"
          by (cases "os_OpenFile s3 dst") auto
        note e4 = os_OpenFile_effect [OF op]
        have k4: "map_of (dents s4) src = Some (RegFile i)" "idata s4 i = idata s i"
          "fdtab s4 f = Some i"
          using e4 k3 sd by auto
        show ?thesis
        proof (cases r4)
          case (Inl e)
          with c o Inr st fi ch None op have
            "r = Some (Wrapped ''failed to open compressed log file'' e)"
            "s' = snd (file_Close s4 (Some f))"
            by (simp_all add: compressLogFile_def split_beta)
          with k4 show ?thesis by (simp add: file_Close_snd)
        next
          case gz: (Inr gzf)
          with e4 obtain j where j: "fdtab s4 gzf = Some j"
            "map_of (dents s4) dst = Some (RegFile j)"
            "map_of (dents s3) dst = Some (RegFile j) \<or> next_ino s3 \<le> j" by blast
          have ij: "i \<noteq> j"
          proof
            assume "i = j"
            with j(3) k3(4) have "map_of (dents s3) dst = Some (RegFile i)" by auto
            with j0 have "j0 = i" by simp
            with j0(2) i2(1) have "map_of (dents s2) dst = Some (RegFile i)" by auto
            with e1 e2 nolink show False by simp
          qed
          obtain r5 s5 where cs: "compress_stream G s4 src f gzf = (r5, s5)"
            by (cases "compress_stream G s4 src f gzf") auto
          note e5 = compress_stream_facts [OF cs k4(3) j(1) ij]
          let ?s6 = "case r5 of None \<Rightarrow> s5 | Some e \<Rightarrow> snd (os_Remove s5 dst)"
          have res: "r = (case r5 of None \<Rightarrow> None | Some e \<Rightarrow> Some (CompressFailed (Sys e)))"
            "s' = snd (file_Close (snd (file_Close ?s6 (Some gzf))) (Some f))"
            using c o Inr st fi ch None op gz cs
            by (cases r5; simp add: compressLogFile_def split_beta)+
          have d': "dents s' = dents ?s6" "idata s' = idata ?s6"
            using res(2) by (simp_all add: file_Close_snd)
          show ?thesis
          proof (cases r5)
            case (Some e)
            then have "map_of (dents ?s6) src = map_of (dents s5) src" "idata ?s6 = idata s5"
              using sd by (simp_all add: os_Remove_snd)
            with Some res(1) d' e5 k4 show ?thesis by simp
          next
            case n5: None
            then have "?s6 = s5" by simp
            moreover have "map_of (dents s5) dst = Some (RegFile j)"
              using e5 j(2) sd by auto
            ultimately show ?thesis using n5 res(1) d' e5 k4 by auto
          qed
        qed
      qed
    qed
  qed
qed

lemma phase_failure_absent:
  assumes sd: "src \<noteq> dst" and si: "map_of (dents s) src = Some (RegFile i)"
    and ds: "map_of (dents s) dst = None"
    and fl: "faults s = [False, False, False, b, False, False] @ replicate m False @ True # tail"
    and m: "m \<le> 5" and tl: "tail = [] \<or> (\<exists>rest. tail = False # rest)"
  shows "fst (compressLogFile G s src dst) = Some (CompressFailed (Sys EIO))
     \<and> map_of (dents (snd (compressLogFile G s src dst))) dst = None"
proof -
  from m consider "m = 0" | "m = 1" | "m = 2" | "m = 3" | "m = 4" | "m = 5" by linarith
  then show ?thesis
  proof cases
    case 1
    from tl show ?thesis
    proof
      assume "tail = []"
      with fl 1 have "faults s = [False, False, False, b, False, False, True]"
        by (simp add: numeral_eq_Suc)
      with sd si ds show ?thesis by (simp add: compress_defs)
    next
      assume "\<exists>rest. tail = False # rest"
      then obtain rest where "tail = False # rest" by blast
      with fl 1 have "faults s = [False, False, False, b, False, False, True, False] @ rest"
        by (simp add: numeral_eq_Suc)
      with sd si ds show ?thesis by (simp add: compress_defs split: list.splits)
    qed
  next
    case 2
    from tl show ?thesis
    proof
      assume "tail = []"
      with fl 2 have "faults s = [False, False, False, b, False, False, False, True]"
        by (simp add: numeral_eq_Suc)
      with sd si ds show ?thesis by (simp add: compress_defs)
    next
      assume "\<exists>rest. tail = False # rest"
      then obtain rest where "tail = False # rest" by blast
      with fl 2 have "faults s = [False, False, False, b, False, False, False, True, False] @ rest"
        by (simp add: numeral_eq_Suc)
      with sd si ds show ?thesis by (simp add: compress_defs split: list.splits)
    qed
  next
    case 3
    from tl show ?thesis
    proof
      assume "tail = []"
      with fl 3 have "faults s = [False, False, False, b, False, False, False, False, True]"
        by (simp add: numeral_eq_Suc)
      with sd si ds show ?thesis by (simp add: compress_defs)
    next
      assume "\<exists>rest. tail = False # rest"
      then obtain rest where "tail = False # rest" by blast
      with fl 3 have "faults s = [False, False, False, b, False, False, False, False, True, False] @ rest"
        by (simp add: numeral_eq_Suc)
      with sd si ds show ?thesis by (simp add: compress_defs split: list.splits)
    qed
  next
    case 4
    from tl show ?thesis
    proof
      assume "tail = []"
      with fl 4 have "faults s = [False, False, False, b, False, False, False, False, False, True]"
        by (simp add: numeral_eq_Suc)
      with sd si ds show ?thesis by (simp add: compress_defs)
    next
      assume "\<exists>rest. tail = False # rest"
      then obtain rest where "tail = False # rest" by blast
      with fl 4 have "faults s = [False, False, False, b, False, False, False, False, False, True, False] @ rest"
        by (simp add: numeral_eq_Suc)
      with sd si ds show ?thesis by (simp add: compress_defs split: list.splits)
    qed
  next
    case 5
    from tl show ?thesis
    proof
      assume "tail = []"
      with fl 5 have "faults s = [False, False, False, b, False, False, False, False, False, False, True]"
        by (simp add: numeral_eq_Suc)
      with sd si ds show ?thesis by (simp add: compress_defs)
    next
      assume "\<exists>rest. tail = False # rest"
      then obtain rest where "tail = False # rest" by blast
      with fl 5 have "faults s = [False, False, False, b, False, False, False, False, False, False, True, False] @ rest"
        by (simp add: numeral_eq_Suc)
      with sd si ds show ?thesis by (simp add: compress_defs split: list.splits)
    qed
  next
    case 6
    from tl show ?thesis
    proof
      assume "tail = []"
      with fl 6 have "faults s = [False, False, False, b, False, False, False, False, False, False, False, True]"
        by (simp add: numeral_eq_Suc)
      with sd si ds show ?thesis by (simp add: compress_defs)
    next
      assume "\<exists>rest. tail = False # rest"
      then obtain rest where "tail = False # rest" by blast
      with fl 6 have "faults s = [False, False, False, b, False, False, False, False, False, False, False, True, False] @ rest"
        by (simp add: numeral_eq_Suc)
      with sd si ds show ?thesis by (simp add: compress_defs split: list.splits)
    qed
  qed
qed

lemma phase_failure_existing:
  assumes sd: "src \<noteq> dst" and si: "map_of (dents s) src = Some (RegFile i)"
    and ds: "map_of (dents s) dst = Some (RegFile j)"
    and fl: "faults s = [False, False, False, b, False, False] @ replicate m False @ True # tail"
    and m: "m \<le> 5" and tl: "tail = [] \<or> (\<exists>rest. tail = False # rest)"
  shows "fst (compressLogFile G s src dst) = Some (CompressFailed (Sys EIO))
     \<and> map_of (dents (snd (compressLogFile G s src dst))) dst = None"
proof -
  from m consider "m = 0" | "m = 1" | "m = 2" | "m = 3" | "m = 4" | "m = 5" by linarith
  then show ?thesis
  proof cases
    case 1
    from tl show ?thesis
    proof
      assume "tail = []"
      with fl 1 have "faults s = [False, False, False, b, False, False, True]"
        by (simp add: numeral_eq_Suc)
      with sd si ds show ?thesis by (simp add: compress_defs)
    next
      assume "\<exists>rest. tail = False # rest"
      then obtain rest where "tail = False # rest" by blast
      with fl 1 have "faults s = [False, False, False, b, False, False, True, False] @ rest"
        by (simp add: numeral_eq_Suc)
      with sd si ds show ?thesis by (simp add: compress_defs split: list.splits)
    qed
  next
    case 2
    from tl show ?thesis
    proof
      assume "tail = []"
      with fl 2 have "faults s = [False, False, False, b, False, False, False, True]"
        by (simp add: numeral_eq_Suc)
      with sd si ds show ?thesis by (simp add: compress_defs)
    next
      assume "\<exists>rest. tail = False # rest"
      then obtain rest where "tail = False # rest" by blast
      with fl 2 have "faults s = [False, False, False, b, False, False, False, True, False] @ rest"
        by (simp add: numeral_eq_Suc)
      with sd si ds show ?thesis by (simp add: compress_defs split: list.splits)
    qed
  next
    case 3
    from tl show ?thesis
    proof
      assume "tail = []"
      with fl 3 have "faults s = [False, False, False, b, False, False, False, False, True]"
        by (simp add: numeral_eq_Suc)
      with sd si ds show ?thesis by (simp add: compress_defs)
    next
      assume "\<exists>rest. tail = False # rest"
      then obtain rest where "tail = False # rest" by blast
      with fl 3 have "faults s = [False, False, False, b, False, False, False, False, True, False] @ rest"
        by (simp add: numeral_eq_Suc)
      with sd si ds show ?thesis by (simp add: compress_defs split: list.splits)
    qed
  next
    case 4
    from tl show ?thesis
    proof
      assume "tail = []"
      with fl 4 have "faults s = [False, False, False, b, False, False, False, False, False, True]"
        by (simp add: numeral_eq_Suc)
      with sd si ds show ?thesis by (simp add: compress_defs)
    next
      assume "\<exists>rest. tail = False # rest"
      then obtain rest where "tail = False # rest" by blast
      with fl 4 have "faults s = [False, False, False, b, False, False, False, False, False, True, False] @ rest"
        by (simp add: numeral_eq_Suc)
      with sd si ds show ?thesis by (simp add: compress_defs split: list.splits)
    qed
  next
    case 5
    from tl show ?thesis
    proof
      assume "tail = []"
      with fl 5 have "faults s = [False, False, False, b, False, False, False, False, False, False, True]"
        by (simp add: numeral_eq_Suc)
      with sd si ds show ?thesis by (simp add: compress_defs)
    next
      assume "\<exists>rest. tail = False # rest"
      then obtain rest where "tail = False # rest" by blast
      with fl 5 have "faults s = [False, False, False, b, False, False, False, False, False, False, True, False] @ rest"
        by (simp add: numeral_eq_Suc)
      with sd si ds show ?thesis by (simp add: compress_defs split: list.splits)
    qed
  next
    case 6
    from tl show ?thesis
    proof
      assume "tail = []"
      with fl 6 have "faults s = [False, False, False, b, False, False, False, False, False, False, False, True]"
        by (simp add: numeral_eq_Suc)
      with sd si ds show ?thesis by (simp add: compress_defs)
    next
      assume "\<exists>rest. tail = False # rest"
      then obtain rest where "tail = False # rest" by blast
      with fl 6 have "faults s = [False, False, False, b, False, False, False, False, False, False, False, True, False] @ rest"
        by (simp add: numeral_eq_Suc)
      with sd si ds show ?thesis by (simp add: compress_defs split: list.splits)
    qed
  qed
qed

lemma phase_failure:
  assumes "src \<noteq> dst" and "map_of (dents s) src = Some (RegFile i)"
    and "map_of (dents s) dst \<noteq> Some SubDir"
    and "faults s = [False, False, False, b, False, False] @ replicate m False @ True # tail"
    and "m \<le> 5" and "tail = [] \<or> (\<exists>rest. tail = False # rest)"
  shows "fst (compressLogFile G s src dst) = Some (CompressFailed (Sys EIO))
     \<and> map_of (dents (snd (compressLogFile G s src dst))) dst = None"
proof (cases "map_of (dents s) dst")
  case None
  from phase_failure_absent [OF assms(1,2) None assms(4,5,6)] show ?thesis .
next
  case (Some d)
  with assms(3) obtain j where "map_of (dents s) dst = Some (RegFile j)" by (cases d) auto
  from phase_failure_existing [OF assms(1,2) this assms(4,5,6)] show ?thesis .
qed

lemma early_failure_case:
  assumes sd: "src \<noteq> dst" and si: "map_of (dents s) src = Some (RegFile i)"
    and ds: "map_of (dents s) dst = None \<or> map_of (dents s) dst = Some (RegFile j)"
    and fl: "faults s = [False, False, False, b] @ replicate m False @ True # tail"
    and m: "m \<le> 1"
  shows "fst (compressLogFile G s src dst) \<noteq> None
     \<and> map_of (dents (snd (compressLogFile G s src dst))) dst \<noteq> None"
proof -
  from m have "m = 0 \<or> m = 1" by linarith
  then have "faults s = [False, False, False, b, True] @ tail
     \<or> faults s = [False, False, False, b, False, True] @ tail"
    using fl by auto
  then show ?thesis
  proof
    assume f: "faults s = [False, False, False, b, True] @ tail"
    from ds show ?thesis
    proof
      assume "map_of (dents s) dst = None"
      with sd si f show ?thesis by (simp add: compress_defs split: list.splits)
    next
      assume "map_of (dents s) dst = Some (RegFile j)"
      with sd si f show ?thesis by (simp add: compress_defs split: list.splits)
    qed
  next
    assume f: "faults s = [False, False, False, b, False, True] @ tail"
    from ds show ?thesis
    proof
      assume "map_of (dents s) dst = None"
      with sd si f show ?thesis by (simp add: compress_defs split: list.splits)
    next
      assume "map_of (dents s) dst = Some (RegFile j)"
      with sd si f show ?thesis by (simp add: compress_defs split: list.splits)
    qed
  qed
qed

lemma early_failure:
  assumes sd: "src \<noteq> dst" and si: "map_of (dents s) src = Some (RegFile i)"
    and nd: "map_of (dents s) dst \<noteq> Some SubDir"
    and fl: "faults s = [False, False, False, b] @ replicate m False @ True # tail"
    and m: "m \<le> 1"
  shows "fst (compressLogFile G s src dst) \<noteq> None
     \<and> map_of (dents (snd (compressLogFile G s src dst))) dst \<noteq> None"
proof (cases "map_of (dents s) dst")
  case None
  then have "map_of (dents s) dst = None \<or> map_of (dents s) dst = Some (RegFile 0)" by simp
  from early_failure_case [OF sd si this fl m] show ?thesis .
next
  case (Some d)
  with nd obtain j where "map_of (dents s) dst = Some (RegFile j)" by (cases d) auto
  then have "map_of (dents s) dst = None \<or> map_of (dents s) dst = Some (RegFile j)" by simp
  from early_failure_case [OF sd si this fl m] show ?thesis .
qed

text \<open>
  Claim C8: \<open>compressLogFile\<close> deletes the source only after the compressed stream
  has been written in full and the destination closed with success; when anything fails
  during the compression, the partial destination is removed and an error returned, and
  the source is left untouched.

  As stated this fails for the removal of the destination. The deferred clean-up is
  registered once the destination has been opened for writing; \<open>chown\<close> creates the
  destination before that. In the example directory the destination does not exist;
  when the fifth call, \<open>os.Chown\<close>, fails, \<open>compressLogFile\<close> returns the error
  \<open>failed to chown compressed log file\<close> and the empty destination that \<open>chown\<close>
  created stays in the directory.
\<close>

theorem compress_early_failure_counterexample:
  "map_of (dents (sweep_os\<lparr>faults := [False, False, False, False, True]\<rparr>))
       ''mmap-2024-03-01T10-00-00.000.log.gz'' = None
   \<and> fst (compressLogFile ex_lib (sweep_os\<lparr>faults := [False, False, False, False, True]\<rparr>)
            ''mmap-2024-03-01T10-00-00.000.log'' ''mmap-2024-03-01T10-00-00.000.log.gz'')
        = Some (Wrapped ''failed to chown compressed log file'' EIO)
   \<and> map_of (dents (snd (compressLogFile ex_lib
            (sweep_os\<lparr>faults := [False, False, False, False, True]\<rparr>)
            ''mmap-2024-03-01T10-00-00.000.log'' ''mmap-2024-03-01T10-00-00.000.log.gz'')))
         ''mmap-2024-03-01T10-00-00.000.log.gz'' = Some (RegFile 6)
   \<and> \<not> (fst (compressLogFile ex_lib (sweep_os\<lparr>faults := [False, False, False, False, True]\<rparr>)
              ''mmap-2024-03-01T10-00-00.000.log'' ''mmap-2024-03-01T10-00-00.000.log.gz'') \<noteq> None
          \<longrightarrow> map_of (dents (snd (compressLogFile ex_lib
                  (sweep_os\<lparr>faults := [False, False, False, False, True]\<rparr>)
                  ''mmap-2024-03-01T10-00-00.000.log'' ''mmap-2024-03-01T10-00-00.000.log.gz'')))
                ''mmap-2024-03-01T10-00-00.000.log.gz'' = None)"
  by (simp add: compress_defs sweep_defs ex_defs)

text \<open>
  Claim C8 as amended: for a source that is a regular file, distinct from the
  destination and not linked under the destination's name,

    \<^item> if the source's entry is gone after the call, then the call returned no error and
      the destination starts with the whole gzip stream of the source;
    \<^item> if the call returns an error, whichever call failed, the source has its entry and
      its bytes;
    \<^item> if the first failing call is one of the six made after the destination has been
      opened (the seventh to the twelfth: reading the source, writing the stream, closing
      the gzip writer, closing the destination, closing the source, removing the source)
      and the removal of the destination that follows does not fail, the call returns the
      compression error and the destination is gone, whatever fails later;
    \<^item> if the first failing call is \<open>os.Chown\<close> or the opening of the destination (the
      fifth or the sixth call), the call returns an error and the destination stays in
      the directory.

  The result of the fourth call, \<open>f.Close()\<close> inside \<open>chown\<close>, is ignored by the
  source, so it may fail or not (\<open>b\<close>).
\<close>

theorem compress_source_and_cleanup:
  assumes sd: "src \<noteq> dst"
    and si: "map_of (dents s) src = Some (RegFile i)"
    and fresh: "i < next_ino s"
    and nolink: "map_of (dents s) dst \<noteq> Some (RegFile i)"
  shows "(map_of (dents (snd (compressLogFile G s src dst))) src \<noteq> Some (RegFile i) \<longrightarrow>
            fst (compressLogFile G s src dst) = None
            \<and> map_of (dents (snd (compressLogFile G s src dst))) src = None
            \<and> (\<exists>j. map_of (dents (snd (compressLogFile G s src dst))) dst = Some (RegFile j)
                  \<and> take (length (gzip_Write G (idata s i) @ gzip_Close G (idata s i)))
                       (idata (snd (compressLogFile G s src dst)) j)
                      = gzip_Write G (idata s i) @ gzip_Close G (idata s i)))
     \<and> (fst (compressLogFile G s src dst) \<noteq> None \<longrightarrow>
            map_of (dents (snd (compressLogFile G s src dst))) src = Some (RegFile i)
            \<and> idata (snd (compressLogFile G s src dst)) i = idata s i)
     \<and> (\<forall>b m tail.
            m \<le> 5
            \<and> faults s = [False, False, False, b, False, False] @ replicate m False @ True # tail
            \<and> (tail = [] \<or> (\<exists>rest. tail = False # rest))
            \<and> map_of (dents s) dst \<noteq> Some SubDir \<longrightarrow>
            fst (compressLogFile G s src dst) = Some (CompressFailed (Sys EIO))
            \<and> map_of (dents (snd (compressLogFile G s src dst))) dst = None)
     \<and> (\<forall>b m tail.
            m \<le> 1
            \<and> faults s = [False, False, False, b] @ replicate m False @ True # tail
            \<and> map_of (dents s) dst \<noteq> Some SubDir \<longrightarrow>
            fst (compressLogFile G s src dst) \<noteq> None
            \<and> map_of (dents (snd (compressLogFile G s src dst))) dst \<noteq> None)"
proof -
  obtain r s' where c: "compressLogFile G s src dst = (r, s')"
    by (cases "compressLogFile G s src dst") auto
  note F = compressLogFile_facts [OF c sd si fresh nolink]
  from F have F1: "idata s' i = idata s i"
    and F2: "r \<noteq> None \<longrightarrow> map_of (dents s') src = Some (RegFile i)"
    and F3: "r = None \<longrightarrow> map_of (dents s') src = None
           \<and> (\<exists>j. map_of (dents s') dst = Some (RegFile j)
                 \<and> take (length (gzip_Write G (idata s i) @ gzip_Close G (idata s i)))
                      (idata s' j)
                     = gzip_Write G (idata s i) @ gzip_Close G (idata s i))"
    by blast+
  have A: "map_of (dents s') src \<noteq> Some (RegFile i) \<longrightarrow>
            r = None \<and> map_of (dents s') src = None
            \<and> (\<exists>j. map_of (dents s') dst = Some (RegFile j)
                  \<and> take (length (gzip_Write G (idata s i) @ gzip_Close G (idata s i)))
                       (idata s' j)
                      = gzip_Write G (idata s i) @ gzip_Close G (idata s i))"
  proof
    assume "map_of (dents s') src \<noteq> Some (RegFile i)"
    with F2 have "r = None" by blast
    with F3 show "r = None \<and> map_of (dents s') src = None
            \<and> (\<exists>j. map_of (dents s') dst = Some (RegFile j)
                  \<and> take (length (gzip_Write G (idata s i) @ gzip_Close G (idata s i)))
                       (idata s' j)
                      = gzip_Write G (idata s i) @ gzip_Close G (idata s i))"
      by blast
  qed
  have B: "r \<noteq> None \<longrightarrow> map_of (dents s') src = Some (RegFile i) \<and> idata s' i = idata s i"
    using F1 F2 by blast
  have C: "\<forall>b m tail.
            m \<le> 5
            \<and> faults s = [False, False, False, b, False, False] @ replicate m False @ True # tail
            \<and> (tail = [] \<or> (\<exists>rest. tail = False # rest))
            \<and> map_of (dents s) dst \<noteq> Some SubDir \<longrightarrow>
            r = Some (CompressFailed (Sys EIO)) \<and> map_of (dents s') dst = None"
  proof (intro allI impI)
    fix b :: bool and m :: nat and tail :: "bool list"
    assume "m \<le> 5
            \<and> faults s = [False, False, False, b, False, False] @ replicate m False @ True # tail
            \<and> (tail = [] \<or> (\<exists>rest. tail = False # rest))
            \<and> map_of (dents s) dst \<noteq> Some SubDir"
    then have m: "m \<le> 5"
      and fl: "faults s = [False, False, False, b, False, False] @ replicate m False @ True # tail"
      and tl: "tail = [] \<or> (\<exists>rest. tail = False # rest)"
      and nd: "map_of (dents s) dst \<noteq> Some SubDir" by blast+
    from phase_failure [OF sd si nd fl m tl, of G]
    show "r = Some (CompressFailed (Sys EIO)) \<and> map_of (dents s') dst = None"
      unfolding c fst_conv snd_conv .
  qed
  have D: "\<forall>b m tail.
            m \<le> 1
            \<and> faults s = [False, False, False, b] @ replicate m False @ True # tail
            \<and> map_of (dents s) dst \<noteq> Some SubDir \<longrightarrow>
            r \<noteq> None \<and> map_of (dents s') dst \<noteq> None"
  proof (intro allI impI)
    fix b :: bool and m :: nat and tail :: "bool list"
    assume "m \<le> 1
            \<and> faults s = [False, False, False, b] @ replicate m False @ True # tail
            \<and> map_of (dents s) dst \<noteq> Some SubDir"
    then have m: "m \<le> 1"
      and fl: "faults s = [False, False, False, b] @ replicate m False @ True # tail"
      and nd: "map_of (dents s) dst \<noteq> Some SubDir" by blast+
    from early_failure [OF sd si nd fl m, of G]
    show "r \<noteq> None \<and> map_of (dents s') dst \<noteq> None"
      unfolding c fst_conv snd_conv .
  qed
  from A B C D show ?thesis unfolding c fst_conv snd_conv by (intro conjI)
qed

theorem compress_source_and_cleanup_witness:
  "''mmap-2024-03-01T10-00-00.000.log'' \<noteq> ''mmap-2024-03-01T10-00-00.000.log.gz''
   \<and> map_of (dents sweep_os) ''mmap-2024-03-01T10-00-00.000.log'' = Some (RegFile 1)
   \<and> 1 < next_ino sweep_os
   \<and> map_of (dents sweep_os) ''mmap-2024-03-01T10-00-00.000.log.gz'' \<noteq> Some (RegFile 1)
   \<and> gzip_Write ex_lib (idata sweep_os 1) @ gzip_Close ex_lib (idata sweep_os 1)
        = [31, 139, 104, 105, 0, 0]
   \<and> (fst (compressLogFile ex_lib sweep_os ''mmap-2024-03-01T10-00-00.000.log''
             ''mmap-2024-03-01T10-00-00.000.log.gz'') = None
      \<and> map_of (dents (snd (compressLogFile ex_lib sweep_os ''mmap-2024-03-01T10-00-00.000.log''
             ''mmap-2024-03-01T10-00-00.000.log.gz''))) ''mmap-2024-03-01T10-00-00.000.log'' = None
      \<and> map_of (dents (snd (compressLogFile ex_lib sweep_os
               ''mmap-2024-03-01T10-00-00.000.log'' ''mmap-2024-03-01T10-00-00.000.log.gz'')))
             ''mmap-2024-03-01T10-00-00.000.log.gz'' = Some (RegFile 6)
      \<and> take (length (gzip_Write ex_lib (idata sweep_os 1) @ gzip_Close ex_lib (idata sweep_os 1)))
               (idata (snd (compressLogFile ex_lib sweep_os
               ''mmap-2024-03-01T10-00-00.000.log'' ''mmap-2024-03-01T10-00-00.000.log.gz'')) 6)
              = gzip_Write ex_lib (idata sweep_os 1) @ gzip_Close ex_lib (idata sweep_os 1))
   \<and> (fst (compressLogFile ex_lib
             (sweep_os\<lparr>faults := [False, False, False, False, False, False, False, True]\<rparr>)
             ''mmap-2024-03-01T10-00-00.000.log'' ''mmap-2024-03-01T10-00-00.000.log.gz'')
        = Some (CompressFailed (Sys EIO))
      \<and> map_of (dents (snd (compressLogFile ex_lib
             (sweep_os\<lparr>faults := [False, False, False, False, False, False, False, True]\<rparr>)
             ''mmap-2024-03-01T10-00-00.000.log'' ''mmap-2024-03-01T10-00-00.000.log.gz'')))
         ''mmap-2024-03-01T10-00-00.000.log.gz'' = None)
   \<and> (map_of (dents (snd (compressLogFile ex_lib
             (sweep_os\<lparr>faults := [False, False, False, False, False, False, False, True]\<rparr>)
             ''mmap-2024-03-01T10-00-00.000.log'' ''mmap-2024-03-01T10-00-00.000.log.gz'')))
         ''mmap-2024-03-01T10-00-00.000.log'' = Some (RegFile 1)
      \<and> idata (snd (compressLogFile ex_lib
             (sweep_os\<lparr>faults := [False, False, False, False, False, False, False, True]\<rparr>)
             ''mmap-2024-03-01T10-00-00.000.log'' ''mmap-2024-03-01T10-00-00.000.log.gz'')) 1
          = idata (sweep_os\<lparr>faults := [False, False, False, False, False, False, False, True]\<rparr>) 1)
   \<and> (fst (compressLogFile ex_lib
             (sweep_os\<lparr>faults := [False, False, False, False, False, True]\<rparr>)
             ''mmap-2024-03-01T10-00-00.000.log'' ''mmap-2024-03-01T10-00-00.000.log.gz'') \<noteq> None
      \<and> map_of (dents (snd (compressLogFile ex_lib
             (sweep_os\<lparr>faults := [False, False, False, False, False, True]\<rparr>)
             ''mmap-2024-03-01T10-00-00.000.log'' ''mmap-2024-03-01T10-00-00.000.log.gz'')))
         ''mmap-2024-03-01T10-00-00.000.log.gz'' \<noteq> None)"
proof -
  let ?src = "''mmap-2024-03-01T10-00-00.000.log''"
  let ?dst = "''mmap-2024-03-01T10-00-00.000.log.gz''"
  let ?bad = "sweep_os\<lparr>faults := [False, False, False, False, False, False, False, True]\<rparr>"
  let ?early = "sweep_os\<lparr>faults := [False, False, False, False, False, True]\<rparr>"
  have h1: "?src \<noteq> ?dst" by simp
  have h2: "map_of (dents sweep_os) ?src = Some (RegFile 1)" by (simp add: sweep_defs ex_defs)
  have h3: "1 < next_ino sweep_os" by (simp add: sweep_defs ex_defs)
  have h4: "map_of (dents sweep_os) ?dst \<noteq> Some (RegFile 1)" by (simp add: sweep_defs ex_defs)
  have z: "gzip_Write ex_lib (idata sweep_os 1) @ gzip_Close ex_lib (idata sweep_os 1)
            = [31, 139, 104, 105, 0, 0]"
    by (simp add: sweep_defs ex_defs)
  have gone: "map_of (dents (snd (compressLogFile ex_lib sweep_os ?src ?dst))) ?src
                \<noteq> Some (RegFile 1)"
    by (simp add: compress_defs sweep_defs ex_defs)
  have b2: "map_of (dents ?bad) ?src = Some (RegFile 1)" by (simp add: sweep_defs ex_defs)
  have b3: "1 < next_ino ?bad" by (simp add: sweep_defs ex_defs)
  have b4: "map_of (dents ?bad) ?dst \<noteq> Some (RegFile 1)" by (simp add: sweep_defs ex_defs)
  have b5: "(1::nat) \<le> 5
      \<and> faults ?bad = [False, False, False, False, False, False] @ replicate 1 False @ True # []
      \<and> ([] = ([]::bool list) \<or> (\<exists>rest. [] = False # rest))
      \<and> map_of (dents ?bad) ?dst \<noteq> Some SubDir"
    by (simp add: sweep_defs ex_defs)
  have e2: "map_of (dents ?early) ?src = Some (RegFile 1)" by (simp add: sweep_defs ex_defs)
  have e3: "1 < next_ino ?early" by (simp add: sweep_defs ex_defs)
  have e4: "map_of (dents ?early) ?dst \<noteq> Some (RegFile 1)" by (simp add: sweep_defs ex_defs)
  have e5: "(1::nat) \<le> 1
      \<and> faults ?early = [False, False, False, False] @ replicate 1 False @ True # []
      \<and> map_of (dents ?early) ?dst \<noteq> Some SubDir"
    by (simp add: sweep_defs ex_defs)
  note good = compress_source_and_cleanup [OF h1 h2 h3 h4, of ex_lib]
  note bad = compress_source_and_cleanup [OF h1 b2 b3 b4, of ex_lib]
  note early = compress_source_and_cleanup [OF h1 e2 e3 e4, of ex_lib]
  note g0 = good [THEN conjunct1, rule_format, OF gone]
  have six: "map_of (dents (snd (compressLogFile ex_lib sweep_os ?src ?dst))) ?dst
               = Some (RegFile 6)"
    by (simp add: compress_defs sweep_defs ex_defs)
  from g0 obtain j where j: "map_of (dents (snd (compressLogFile ex_lib sweep_os ?src ?dst))) ?dst
        = Some (RegFile j)"
     "take (length (gzip_Write ex_lib (idata sweep_os 1) @ gzip_Close ex_lib (idata sweep_os 1)))
        (idata (snd (compressLogFile ex_lib sweep_os ?src ?dst)) j)
       = gzip_Write ex_lib (idata sweep_os 1) @ gzip_Close ex_lib (idata sweep_os 1)"
    by blast
  from j(1) six have "j = 6" by simp
  with j(2) g0 six have g:
    "fst (compressLogFile ex_lib sweep_os ?src ?dst) = None
      \<and> map_of (dents (snd (compressLogFile ex_lib sweep_os ?src ?dst))) ?src = None
      \<and> map_of (dents (snd (compressLogFile ex_lib sweep_os ?src ?dst))) ?dst = Some (RegFile 6)
      \<and> take (length (gzip_Write ex_lib (idata sweep_os 1) @ gzip_Close ex_lib (idata sweep_os 1)))
               (idata (snd (compressLogFile ex_lib sweep_os ?src ?dst)) 6)
              = gzip_Write ex_lib (idata sweep_os 1) @ gzip_Close ex_lib (idata sweep_os 1)"
    by blast
  note e = bad [THEN conjunct2, THEN conjunct2, THEN conjunct1, rule_format, OF b5]
  from e have "fst (compressLogFile ex_lib ?bad ?src ?dst) \<noteq> None" by simp
  note k = bad [THEN conjunct2, THEN conjunct1, rule_format, OF this]
  note d = early [THEN conjunct2, THEN conjunct2, THEN conjunct2, rule_format, OF e5]
  show ?thesis
    by (intro conjI h1 h2 h3 h4 z g e k d)
qed

end
